theory Spec2Isabelle
  imports Complex_Main "HOL-Library.AList"
begin

section \<open>Strings\<close>

text \<open>
  JavaScript strings are modelled as \<^typ>\<open>string\<close>. The model covers the ASCII
  subset: \<open>isSpace\<close> is the ASCII part of the class \<^verbatim>\<open>\s\<close> (which is also what
  \<^verbatim>\<open>trim()\<close> strips), and the case conversions act on the letters A-Z and a-z.
\<close>

definition isSpace :: "char \<Rightarrow> bool" where
  "isSpace c = (c \<in> set [CHR 0x09, CHR 0x0A, CHR 0x0B, CHR 0x0C, CHR 0x0D, CHR 0x20])"

definition trim :: "string \<Rightarrow> string" where
  "trim s = rev (dropWhile isSpace (rev (dropWhile isSpace s)))"

definition lowerLetters :: string where
  "lowerLetters = ''abcdefghijklmnopqrstuvwxyz''"

definition upperLetters :: string where
  "upperLetters = ''ABCDEFGHIJKLMNOPQRSTUVWXYZ''"

definition toUpperChar :: "char \<Rightarrow> char" where
  "toUpperChar c = (case map_of (zip lowerLetters upperLetters) c of Some u \<Rightarrow> u | None \<Rightarrow> c)"

definition toLowerChar :: "char \<Rightarrow> char" where
  "toLowerChar c = (case map_of (zip upperLetters lowerLetters) c of Some l \<Rightarrow> l | None \<Rightarrow> c)"

definition toUpperCase :: "string \<Rightarrow> string" where
  "toUpperCase s = map toUpperChar s"

definition toLowerCase :: "string \<Rightarrow> string" where
  "toLowerCase s = map toLowerChar s"

text \<open>\<^verbatim>\<open>s.startsWith(p)\<close> and \<^verbatim>\<open>s.includes(p)\<close>.\<close>

definition startsWith :: "string \<Rightarrow> string \<Rightarrow> bool" where
  "startsWith s p = (take (length p) s = p)"

fun includes_str :: "string \<Rightarrow> string \<Rightarrow> bool" where
  "includes_str [] p = (p = [])"
| "includes_str (c # cs) p = (startsWith (c # cs) p \<or> includes_str cs p)"

text \<open>\<^verbatim>\<open>s.replace(/c/g, r)\<close> for a one-character pattern.\<close>

definition replaceAllChar :: "char \<Rightarrow> string \<Rightarrow> string \<Rightarrow> string" where
  "replaceAllChar c r s = concat (map (\<lambda>x. if x = c then r else [x]) s)"

text \<open>A JavaScript truthiness test on an optional string: undefined and \<^verbatim>\<open>""\<close> are falsy.\<close>

definition falsy :: "string option \<Rightarrow> bool" where
  "falsy v = (v = None \<or> v = Some [])"

section \<open>Data model (types.ts)\<close>

type_synonym ElementAttributes = "(string \<times> string) list"

text \<open>
  The field \<^verbatim>\<open>id\<close> is named \<open>elemId\<close>; \<^verbatim>\<open>readability\<close> holds the
  \<^verbatim>\<open>contentScore\<close> when present. Scores are JavaScript numbers; the model computes
  them as exact rationals.
\<close>

record ElementInfo =
  elemId :: nat
  parentId :: "nat option"
  tagName :: string
  attributes :: ElementAttributes
  textChunks :: "string list option"
  finalTextContent :: "string option"
  isVisibleBasedOnAttrs :: bool
  role :: "string option"
  isDataTableLikely :: bool
  isCodeBlock :: bool
  readability :: "rat option"

record Metadata =
  title :: "string option"
  byline :: "string option"
  excerpt :: "string option"
  siteName :: "string option"
  publishedTime :: "string option"
  lang :: "string option"
  dir :: "string option"
  jsonLd :: "string option"

definition emptyMetadata :: Metadata where
  "emptyMetadata = \<lparr>title = None, byline = None, excerpt = None, siteName = None,
     publishedTime = None, lang = None, dir = None, jsonLd = None\<rparr>"

text \<open>
  The element store is a JavaScript \<^verbatim>\<open>Map<number, ElementInfo>\<close>: an association list
  in insertion order, \<^verbatim>\<open>get\<close> is \<^const>\<open>map_of\<close>, \<^verbatim>\<open>set\<close> is
  \<^const>\<open>AList.update\<close>, \<^verbatim>\<open>delete\<close> is \<^const>\<open>AList.delete\<close>.
\<close>

type_synonym ElementStore = "(nat \<times> ElementInfo) list"

section \<open>Constants (constants.ts)\<close>

definition VOID_ELEMENTS :: "string list" where
  "VOID_ELEMENTS = [''AREA'', ''BASE'', ''BR'', ''COL'', ''EMBED'', ''HR'', ''IMG'', ''INPUT'',
     ''LINK'', ''META'', ''PARAM'', ''SOURCE'', ''TRACK'', ''WBR'']"

definition DEFAULT_TAGS_TO_SCORE :: "string list" where
  "DEFAULT_TAGS_TO_SCORE = [''SECTION'', ''H2'', ''H3'', ''H4'', ''H5'', ''H6'', ''P'', ''TD'',
     ''PRE'', ''ARTICLE'']"

definition UNLIKELY_ROLES :: "string list" where
  "UNLIKELY_ROLES = [''menu'', ''menubar'', ''complementary'', ''navigation'', ''alert'',
     ''alertdialog'', ''dialog'']"

definition NB_TOP_CANDIDATES :: int where
  "NB_TOP_CANDIDATES = 5"

definition CHAR_THRESHOLD :: int where
  "CHAR_THRESHOLD = 500"

section \<open>Metadata helpers (utils.ts)\<close>

text \<open>
  \<^verbatim>\<open>unescapeHtmlEntities\<close> and \<^verbatim>\<open>escapeHtml\<close> with the patterns and replacement
  strings the source file has.
\<close>

definition unescapeHtmlEntities :: "string option \<Rightarrow> string option" where
  "unescapeHtmlEntities str =
     (if falsy str then None
      else Some (replaceAllChar (CHR ''&'') ''&''
                  (replaceAllChar (CHR 0x27) [CHR 0x27]
                    (replaceAllChar (CHR 0x22) [CHR 0x22]
                      (replaceAllChar (CHR ''>'') ''>''
                        (replaceAllChar (CHR ''<'') ''<'' (the str)))))))"

definition escapeHtml :: "string option \<Rightarrow> string" where
  "escapeHtml unsafe =
     (if falsy unsafe then []
      else replaceAllChar (CHR 0x27) [CHR 0x27]
             (replaceAllChar (CHR 0x22) [CHR 0x22]
               (replaceAllChar (CHR ''>'') ''>''
                 (replaceAllChar (CHR ''<'') ''<''
                   (replaceAllChar (CHR ''&'') ''&'' (the unsafe))))))"

text \<open>
  A start-tag event carries the tag name and the attribute list of the host element;
  \<^verbatim>\<open>element.getAttribute(name)\<close> reads the first attribute of that name.
\<close>

definition getAttribute :: "(string \<times> string) list \<Rightarrow> string \<Rightarrow> string option" where
  "getAttribute attrs name = map_of attrs name"

definition extractMetadataFromElement :: "(string \<times> string) list \<Rightarrow> Metadata" where
  "extractMetadataFromElement attrs =
     (let name = map_option toLowerCase (getAttribute attrs ''name'');
          property = map_option toLowerCase (getAttribute attrs ''property'');
          content = getAttribute attrs ''content''
      in if falsy content then emptyMetadata
         else emptyMetadata\<lparr>
           title := (if property = Some ''og:title'' \<or> name = Some ''twitter:title''
                     then content else None),
           byline := (if property = Some ''og:article:author'' \<or> name = Some ''author''
                      then content else None),
           excerpt := (if property = Some ''og:description'' \<or> name = Some ''description''
                       then content else None),
           siteName := (if property = Some ''og:site_name'' then content else None),
           publishedTime := (if property = Some ''article:published_time''
                                \<or> name = Some ''parsely-pub-date''
                             then content else None)\<rparr>)"

section \<open>Tree builder (phase1-handler.ts)\<close>

text \<open>
  The handler object together with the id counter of the owning instance (the closure
  \<^verbatim>\<open>() => ++this.elementCounter\<close>). The element stack has its top at the head of
  the list. The methods \<^verbatim>\<open>element\<close>, \<^verbatim>\<open>text\<close> and \<^verbatim>\<open>end\<close> are
  \<open>element_h\<close>, \<open>text_h\<close> and \<open>end_h\<close>; console output is left out.
\<close>

record Phase1Handler =
  elementStore :: ElementStore
  metadataStore :: Metadata
  elementCounter :: nat
  maxElemsToParse :: int
  elementStack :: "nat list"
  elementCount :: nat
  lastTextChunkMap :: "(nat \<times> string) list"

text \<open>
  The events the host delivers: a start tag (\<^verbatim>\<open>element()\<close>; the flag says whether
  \<^verbatim>\<open>element.onEndTag\<close> accepts the registration or throws), a text chunk
  (\<^verbatim>\<open>text()\<close>), the firing of a registered end-tag callback, and the end of the
  document (\<^verbatim>\<open>end()\<close>).
\<close>

datatype event =
  StartTag string "(string \<times> string) list" bool
  | TextChunk string
  | EndTag
  | DocumentEnd

definition getCurrentElementIdFromStack :: "Phase1Handler \<Rightarrow> nat option" where
  "getCurrentElementIdFromStack h = (case elementStack h of [] \<Rightarrow> None | t # _ \<Rightarrow> Some t)"

definition isSkippedTag :: "string \<Rightarrow> (string \<times> string) list \<Rightarrow> bool" where
  "isSkippedTag tag attrs =
     (tag = ''SCRIPT'' \<or> tag = ''STYLE'' \<or> tag = ''NOSCRIPT'' \<or> tag = ''IFRAME'' \<or>
      (tag = ''LINK'' \<and> getAttribute attrs ''rel'' = Some ''stylesheet''))"

definition lowerCaseAttributes :: "(string \<times> string) list \<Rightarrow> ElementAttributes" where
  "lowerCaseAttributes attrs = fold (\<lambda>(k, v) acc. AList.update (toLowerCase k) v acc) attrs []"

definition styleIncludes :: "ElementAttributes \<Rightarrow> string \<Rightarrow> bool" where
  "styleIncludes as p = (case map_of as ''style'' of None \<Rightarrow> False | Some s \<Rightarrow> includes_str s p)"

definition newElementInfo ::
  "nat \<Rightarrow> nat option \<Rightarrow> string \<Rightarrow> (string \<times> string) list \<Rightarrow> ElementInfo" where
  "newElementInfo elementId parent tag attrs =
     (let as = lowerCaseAttributes attrs in
      \<lparr>elemId = elementId,
       parentId = parent,
       tagName = tag,
       attributes = as,
       textChunks = Some [],
       finalTextContent = Some [],
       isVisibleBasedOnAttrs =
         (getAttribute attrs ''hidden'' = None \<and>
          \<not> styleIncludes as ''display: none'' \<and>
          \<not> styleIncludes as ''visibility: hidden'' \<and>
          getAttribute attrs ''aria-hidden'' \<noteq> Some ''true''),
       role = getAttribute attrs ''role'',
       isDataTableLikely =
         (tag = ''TABLE'' \<and> map_of as ''role'' \<noteq> Some ''presentation''
            \<and> map_of as ''datatable'' \<noteq> Some ''0''),
       isCodeBlock = (tag = ''PRE''),
       readability = None\<rparr>)"

text \<open>The loop over the keys of the extracted metadata: a key is written only while falsy.\<close>

definition mergeField :: "string option \<Rightarrow> string option \<Rightarrow> string option" where
  "mergeField cur ext =
     (case ext of None \<Rightarrow> cur
      | Some v \<Rightarrow> if falsy cur then unescapeHtmlEntities (Some v) else cur)"

definition mergeMetadata :: "Metadata \<Rightarrow> Metadata \<Rightarrow> Metadata" where
  "mergeMetadata m ext =
     m\<lparr>title := mergeField (title m) (title ext),
       byline := mergeField (byline m) (byline ext),
       excerpt := mergeField (excerpt m) (excerpt ext),
       siteName := mergeField (siteName m) (siteName ext),
       publishedTime := mergeField (publishedTime m) (publishedTime ext)\<rparr>"

text \<open>
  The tag-specific part of \<^verbatim>\<open>element()\<close>. The lazy-image promotion rewrites the
  host element only, after the attributes were copied, so it leaves the handler as it is.
\<close>

definition processSpecificTag ::
  "string \<Rightarrow> (string \<times> string) list \<Rightarrow> Phase1Handler \<Rightarrow> Phase1Handler" where
  "processSpecificTag tag attrs h =
     (if tag = ''IMG'' \<or> tag = ''PICTURE'' \<or> tag = ''FIGURE'' then h
      else if tag = ''META''
        then h\<lparr>metadataStore := mergeMetadata (metadataStore h) (extractMetadataFromElement attrs)\<rparr>
      else if tag = ''HTML''
        then h\<lparr>metadataStore := (metadataStore h)\<lparr>lang := getAttribute attrs ''lang'',
                                                    dir := getAttribute attrs ''dir''\<rparr>\<rparr>
      else h)"

text \<open>
  The last part of \<^verbatim>\<open>element()\<close>: a non-void element is pushed and registers its
  end-tag callback (a failed registration pops it again); a void element loses its
  chunk array.
\<close>

definition registerElement :: "string \<Rightarrow> nat \<Rightarrow> bool \<Rightarrow> Phase1Handler \<Rightarrow> Phase1Handler" where
  "registerElement tag elementId canRegister h =
     (if tag \<notin> set VOID_ELEMENTS then
        (let h1 = h\<lparr>elementStack := elementId # elementStack h\<rparr> in
         if canRegister then h1
         else (case elementStack h1 of
                 t # rest \<Rightarrow>
                   if t = elementId
                   then h1\<lparr>lastTextChunkMap := AList.delete elementId (lastTextChunkMap h1),
                           elementStack := rest\<rparr>
                   else h1
               | [] \<Rightarrow> h1))
      else
        (let h1 = h\<lparr>lastTextChunkMap := AList.delete elementId (lastTextChunkMap h)\<rparr> in
         case map_of (elementStore h1) elementId of
           None \<Rightarrow> h1
         | Some voidInfo \<Rightarrow>
             h1\<lparr>elementStore :=
                  AList.update elementId (voidInfo\<lparr>textChunks := None\<rparr>) (elementStore h1)\<rparr>))"

definition element_h ::
  "Phase1Handler \<Rightarrow> string \<Rightarrow> (string \<times> string) list \<Rightarrow> bool \<Rightarrow> Phase1Handler" where
  "element_h h rawTag attrs canRegister =
     (if maxElemsToParse h > 0 \<and> int (elementCount h) \<ge> maxElemsToParse h then h
      else
        (let h1 = h\<lparr>elementCount := elementCount h + 1\<rparr>;
             tag = toUpperCase rawTag
         in if isSkippedTag tag attrs then h1
            else
              (let elementId = elementCounter h1 + 1;
                   h2 = h1\<lparr>elementCounter := elementId\<rparr>;
                   parent = getCurrentElementIdFromStack h2;
                   h3 = h2\<lparr>elementStore :=
                             AList.update elementId (newElementInfo elementId parent tag attrs)
                               (elementStore h2),
                           lastTextChunkMap := AList.delete elementId (lastTextChunkMap h2)\<rparr>
               in registerElement tag elementId canRegister (processSpecificTag tag attrs h3))))"

text \<open>The end-tag callback registered by \<^verbatim>\<open>element.onEndTag\<close>.\<close>

definition onEndTag :: "Phase1Handler \<Rightarrow> Phase1Handler" where
  "onEndTag h =
     (case elementStack h of
        [] \<Rightarrow> h
      | finishedElementId # rest \<Rightarrow>
          (let h1 = h\<lparr>elementStack := rest,
                      lastTextChunkMap := AList.delete finishedElementId (lastTextChunkMap h)\<rparr>
           in case map_of (elementStore h1) finishedElementId of
                None \<Rightarrow> h1
              | Some info \<Rightarrow>
                  (let final = concat (case textChunks info of None \<Rightarrow> [] | Some cs \<Rightarrow> cs);
                       h2 = h1\<lparr>elementStore :=
                                 AList.update finishedElementId
                                   (info\<lparr>finalTextContent := Some final, textChunks := None\<rparr>)
                                   (elementStore h1)\<rparr>
                   in if tagName info = ''TITLE'' \<and> falsy (title (metadataStore h2))
                      then h2\<lparr>metadataStore :=
                                (metadataStore h2)\<lparr>title := unescapeHtmlEntities (Some (trim final))\<rparr>\<rparr>
                      else h2)))"

text \<open>\<^verbatim>\<open>text()\<close>: the chunk goes to the element on top of the stack.\<close>

definition text_h :: "Phase1Handler \<Rightarrow> string \<Rightarrow> Phase1Handler" where
  "text_h h newChunk =
     (let significantText = (length (trim newChunk) > 0) in
      case getCurrentElementIdFromStack h of
        None \<Rightarrow> h
      | Some currentElementId \<Rightarrow>
          if \<not> significantText then h
          else (case map_of (elementStore h) currentElementId of
                  None \<Rightarrow> h
                | Some currentInfo \<Rightarrow>
                    if tagName currentInfo \<in> set VOID_ELEMENTS then h
                    else if map_of (lastTextChunkMap h) currentElementId \<noteq> Some newChunk
                    then h\<lparr>elementStore :=
                             AList.update currentElementId
                               (currentInfo\<lparr>textChunks :=
                                  Some ((case textChunks currentInfo of None \<Rightarrow> [] | Some cs \<Rightarrow> cs)
                                        @ [newChunk])\<rparr>)
                               (elementStore h),
                           lastTextChunkMap :=
                             AList.update currentElementId newChunk (lastTextChunkMap h)\<rparr>
                    else h))"

text \<open>\<^verbatim>\<open>end()\<close>: the document end clears the map of last chunks.\<close>

definition end_h :: "Phase1Handler \<Rightarrow> Phase1Handler" where
  "end_h h = h\<lparr>lastTextChunkMap := []\<rparr>"

fun handleEvent :: "Phase1Handler \<Rightarrow> event \<Rightarrow> Phase1Handler" where
  "handleEvent h (StartTag tag attrs canRegister) = element_h h tag attrs canRegister"
| "handleEvent h (TextChunk chunk) = text_h h chunk"
| "handleEvent h EndTag = onEndTag h"
| "handleEvent h DocumentEnd = end_h h"

definition runEvents :: "Phase1Handler \<Rightarrow> event list \<Rightarrow> Phase1Handler" where
  "runEvents h evs = foldl handleEvent h evs"

text \<open>
  The handler as \<^verbatim>\<open>runPhase1\<close> constructs it, after \<^verbatim>\<open>resetState\<close>: an empty
  store, empty metadata, the counter at zero.
\<close>

definition newPhase1Handler :: "int \<Rightarrow> Phase1Handler" where
  "newPhase1Handler maxElems =
     \<lparr>elementStore = [], metadataStore = emptyMetadata, elementCounter = 0,
      maxElemsToParse = maxElems, elementStack = [], elementCount = 0,
      lastTextChunkMap = []\<rparr>"


section \<open>Further string operations\<close>

text \<open>\<^verbatim>\<open>s.replace(/\s{2,}/g, " ")\<close>: every run of two or more spaces becomes one blank.\<close>

function collapseSpaces :: "string \<Rightarrow> string" where
  "collapseSpaces [] = []"
| "collapseSpaces (c # cs) =
     (if isSpace c \<and> cs \<noteq> [] \<and> isSpace (hd cs)
      then CHR '' '' # collapseSpaces (dropWhile isSpace cs)
      else c # collapseSpaces cs)"
  by pat_completeness auto
termination
  by (relation "measure length") (auto intro: le_imp_less_Suc length_dropWhile_le)

text \<open>\<^verbatim>\<open>s.split(c)\<close> for a one-character separator: the pieces between the separators.\<close>

fun splitOn :: "char \<Rightarrow> string \<Rightarrow> string list" where
  "splitOn c [] = [[]]"
| "splitOn c (x # xs) =
     (if x = c then [] # splitOn c xs
      else (case splitOn c xs of w # ws \<Rightarrow> (x # w) # ws | [] \<Rightarrow> [[x]]))"

definition endsWith :: "string \<Rightarrow> string \<Rightarrow> bool" where
  "endsWith s p = startsWith (rev s) (rev p)"

text \<open>A case-insensitive regular expression that is an alternation of literals.\<close>

definition testAny :: "string list \<Rightarrow> string \<Rightarrow> bool" where
  "testAny pats s = list_ex (\<lambda>p. includes_str (toLowerCase s) p) pats"

definition POSITIVE_REGEX :: "string \<Rightarrow> bool" where
  "POSITIVE_REGEX s = testAny [''article'', ''body'', ''content'', ''entry'', ''hentry'',
     ''h-entry'', ''main'', ''page'', ''pagination'', ''post'', ''text'', ''blog'', ''story''] s"

definition NEGATIVE_REGEX :: "string \<Rightarrow> bool" where
  "NEGATIVE_REGEX s =
     (testAny [''-ad-'', ''hidden'', '' hid '', ''banner'', ''combx'', ''comment'', ''com-'',
        ''contact'', ''footer'', ''gdpr'', ''masthead'', ''media'', ''meta'', ''outbrain'',
        ''promo'', ''related'', ''scroll'', ''share'', ''shoutbox'', ''sidebar'', ''skyscraper'',
        ''sponsor'', ''shopping'', ''tags'', ''widget''] s
      \<or> toLowerCase s = ''hid'' \<or> endsWith (toLowerCase s) '' hid''
      \<or> startsWith (toLowerCase s) ''hid '')"

definition UNLIKELY_CANDIDATES_REGEX :: "string \<Rightarrow> bool" where
  "UNLIKELY_CANDIDATES_REGEX s = testAny [''-ad-'', ''ai2html'', ''banner'', ''breadcrumbs'',
     ''combx'', ''comment'', ''community'', ''cover-wrap'', ''disqus'', ''extra'', ''footer'',
     ''gdpr'', ''header'', ''legends'', ''menu'', ''related'', ''remark'', ''replies'', ''rss'',
     ''shoutbox'', ''sidebar'', ''skyscraper'', ''social'', ''sponsor'', ''supplemental'',
     ''ad-break'', ''agegate'', ''pagination'', ''pager'', ''popup'', ''yom-remote''] s"

definition OK_MAYBE_ITS_A_CANDIDATE_REGEX :: "string \<Rightarrow> bool" where
  "OK_MAYBE_ITS_A_CANDIDATE_REGEX s = testAny [''and'', ''article'', ''body'', ''column'',
     ''content'', ''main'', ''mathjax'', ''shadow''] s"

text \<open>\<^verbatim>\<open>COMMAS_REGEX\<close>: of its code points only the ASCII comma is a \<^typ>\<open>char\<close>.\<close>

definition COMMA :: char where
  "COMMA = CHR '',''"

section \<open>Tree queries (utils.ts)\<close>

definition getElementInfo :: "nat \<Rightarrow> ElementStore \<Rightarrow> ElementInfo option" where
  "getElementInfo i store = map_of store i"

definition getParentId :: "nat \<Rightarrow> ElementStore \<Rightarrow> nat option" where
  "getParentId i store = (case getElementInfo i store of None \<Rightarrow> None | Some info \<Rightarrow> parentId info)"

text \<open>
  The recursive helpers do not return on a store whose parent links form a cycle. They
  take the number of nested calls allowed and give \<open>None\<close> when it is used up; callers
  pass \<open>stackFuel\<close>, one more than the number of records, which every chain of distinct
  records fits in.
\<close>

definition stackFuel :: "ElementStore \<Rightarrow> nat" where
  "stackFuel store = Suc (length store)"

fun ancestorsWalk :: "nat \<Rightarrow> ElementStore \<Rightarrow> nat \<Rightarrow> nat list" where
  "ancestorsWalk 0 store i = []"
| "ancestorsWalk (Suc n) store i =
     (case getParentId i store of None \<Rightarrow> [] | Some p \<Rightarrow> p # ancestorsWalk n store p)"

fun ancestorsUnbounded :: "nat \<Rightarrow> ElementStore \<Rightarrow> nat \<Rightarrow> nat list option" where
  "ancestorsUnbounded 0 store i = None"
| "ancestorsUnbounded (Suc n) store i =
     (case getParentId i store of
        None \<Rightarrow> Some []
      | Some p \<Rightarrow> map_option (Cons p) (ancestorsUnbounded n store p))"

text \<open>\<^verbatim>\<open>getAncestorIds\<close>: at most \<open>maxDepth\<close> levels, all of them when \<open>maxDepth \<le> 0\<close>.\<close>

definition getAncestorIds :: "nat \<Rightarrow> ElementStore \<Rightarrow> int \<Rightarrow> nat list option" where
  "getAncestorIds i store maxDepth =
     (if maxDepth \<le> 0 then ancestorsUnbounded (stackFuel store) store i
      else Some (ancestorsWalk (nat maxDepth) store i))"

definition getChildrenIds :: "nat \<Rightarrow> ElementStore \<Rightarrow> nat list" where
  "getChildrenIds p store = sort (map fst (filter (\<lambda>(i, info). parentId info = Some p) store))"

fun getDescendantIds :: "nat \<Rightarrow> nat \<Rightarrow> ElementStore \<Rightarrow> nat list option" where
  "getDescendantIds 0 i store = None"
| "getDescendantIds (Suc n) i store =
     map_option concat
       (those (map (\<lambda>childId. map_option (Cons childId) (getDescendantIds n childId store))
                 (getChildrenIds i store)))"

definition getInnerText :: "nat \<Rightarrow> ElementStore \<Rightarrow> bool \<Rightarrow> string" where
  "getInnerText i store normalizeSpaces =
     (let text = (case getElementInfo i store of
                    None \<Rightarrow> []
                  | Some info \<Rightarrow> (case finalTextContent info of None \<Rightarrow> [] | Some t \<Rightarrow> t))
      in if normalizeSpaces then trim (collapseSpaces text) else trim text)"

fun getTotalVisibleInnerText :: "nat \<Rightarrow> nat \<Rightarrow> ElementStore \<Rightarrow> bool \<Rightarrow> string option" where
  "getTotalVisibleInnerText 0 i store normalizeSpaces = None"
| "getTotalVisibleInnerText (Suc n) i store normalizeSpaces =
     (let own = (case getElementInfo i store of
                   None \<Rightarrow> []
                 | Some info \<Rightarrow>
                     if isVisibleBasedOnAttrs info then getInnerText i store normalizeSpaces else [])
      in map_option
           (\<lambda>parts. let totalText = own @ concat (map (\<lambda>t. CHR '' '' # t) parts)
                    in if normalizeSpaces then trim (collapseSpaces totalText) else trim totalText)
           (those (map (\<lambda>childId. getTotalVisibleInnerText n childId store normalizeSpaces)
                     (getChildrenIds i store))))"

definition attr :: "ElementInfo \<Rightarrow> string \<Rightarrow> string" where
  "attr info name = (case map_of (attributes info) name of None \<Rightarrow> [] | Some v \<Rightarrow> v)"

definition getClassWeight :: "nat \<Rightarrow> ElementStore \<Rightarrow> rat" where
  "getClassWeight i store =
     (case getElementInfo i store of
        None \<Rightarrow> 0
      | Some info \<Rightarrow>
          (let classAndId = attr info ''class'' @ '' '' @ attr info ''id''
           in (if NEGATIVE_REGEX classAndId then - 25 else 0)
              + (if POSITIVE_REGEX classAndId then 25 else 0)))"

text \<open>
  \<^verbatim>\<open>getLinkDensity\<close>: the anchor text below the element over its whole visible text; an
  anchor to a fragment counts three tenths.
\<close>

definition linkLengthOf :: "nat \<Rightarrow> ElementStore \<Rightarrow> nat \<Rightarrow> rat option" where
  "linkLengthOf fuel store descendantId =
     (case getElementInfo descendantId store of
        None \<Rightarrow> Some 0
      | Some descInfo \<Rightarrow>
          if isVisibleBasedOnAttrs descInfo \<and> tagName descInfo = ''A''
          then map_option
                 (\<lambda>t. of_nat (length t)
                       * (case map_of (attributes descInfo) ''href'' of
                            None \<Rightarrow> 1
                          | Some href \<Rightarrow> if startsWith href ''#'' then 3 / 10 else 1))
                 (getTotalVisibleInnerText fuel descendantId store True)
          else Some 0)"

definition getLinkDensity :: "nat \<Rightarrow> nat \<Rightarrow> ElementStore \<Rightarrow> rat option" where
  "getLinkDensity fuel i store =
     (case getTotalVisibleInnerText fuel i store True of
        None \<Rightarrow> None
      | Some t \<Rightarrow>
          if length t = 0 then Some 0
          else (case getDescendantIds fuel i store of
                  None \<Rightarrow> None
                | Some ds \<Rightarrow>
                    map_option (\<lambda>ls. sum_list ls / of_nat (length t))
                      (those (map (linkLengthOf fuel store) (i # ds)))))"

definition isUnlikelyCandidate :: "nat \<Rightarrow> ElementStore \<Rightarrow> bool" where
  "isUnlikelyCandidate i store =
     (case getElementInfo i store of
        None \<Rightarrow> True
      | Some info \<Rightarrow>
          (let matchString = attr info ''class'' @ '' '' @ attr info ''id'' in
           if (case role info of None \<Rightarrow> [] | Some r \<Rightarrow> r) \<in> set UNLIKELY_ROLES then True
           else if UNLIKELY_CANDIDATES_REGEX matchString
                   \<and> \<not> OK_MAYBE_ITS_A_CANDIDATE_REGEX matchString
                   \<and> tagName info \<noteq> ''BODY'' \<and> tagName info \<noteq> ''ARTICLE''
           then True
           else False))"

section \<open>Scorer (phase2-scorer.ts)\<close>

record ScoringOptions =
  nbTopCandidates :: "int option"
  charThreshold :: "int option"
  linkDensityModifier :: "rat option"

record ScoringResult =
  topCandidateId :: "nat option"
  elementsToKeepIds :: "nat list"

definition emptyResult :: ScoringResult where
  "emptyResult = \<lparr>topCandidateId = None, elementsToKeepIds = []\<rparr>"

text \<open>
  The scorer's own \<^verbatim>\<open>initializeNodeScore\<close>, called on a record without a score:
  the tag bias plus the class weight.
\<close>

definition initialScore :: "nat \<Rightarrow> ElementInfo \<Rightarrow> ElementStore \<Rightarrow> rat" where
  "initialScore i info store =
     (if tagName info = ''ARTICLE'' \<or> tagName info = ''DIV'' then 5
      else if tagName info = ''PRE'' \<or> tagName info = ''TD'' \<or> tagName info = ''BLOCKQUOTE'' then 3
      else if tagName info = ''ADDRESS'' then - 3
      else if tagName info = ''H1'' then - 5
      else 0) + getClassWeight i store"

definition initializeNodeScore :: "nat \<Rightarrow> ElementStore \<Rightarrow> ElementStore" where
  "initializeNodeScore i store =
     (case getElementInfo i store of
        None \<Rightarrow> store
      | Some info \<Rightarrow>
          if readability info \<noteq> None then store
          else AList.update i (info\<lparr>readability := Some (initialScore i info store)\<rparr>) store)"

text \<open>Step 1: the visible, likely elements whose tag is scored, in store order.\<close>

definition elementsToScoreIds :: "ElementStore \<Rightarrow> nat list" where
  "elementsToScoreIds store =
     filter (\<lambda>i. case getElementInfo i store of
                   None \<Rightarrow> False
                 | Some info \<Rightarrow>
                     isVisibleBasedOnAttrs info \<and> \<not> isUnlikelyCandidate i store
                     \<and> tagName info \<in> set DEFAULT_TAGS_TO_SCORE)
       (map fst store)"

text \<open>The score of an element's own text (the constant \<^verbatim>\<open>contentScore\<close> of step 2).\<close>

definition contentScore :: "string \<Rightarrow> nat" where
  "contentScore innerText =
     1 + length (splitOn COMMA innerText) + min (length innerText div 100) 3"

definition scoreDivider :: "nat \<Rightarrow> rat" where
  "scoreDivider level = (if level = 0 then 1 else if level = 1 then 2 else of_nat level * 3)"

text \<open>
  The body of the \<^verbatim>\<open>forEach\<close> over the ancestors. The set of candidates is the list
  of their ids in insertion order: its values are the records of the store themselves.
\<close>

definition propagateScore ::
  "nat \<Rightarrow> nat \<times> nat \<Rightarrow> ElementStore \<times> nat list \<Rightarrow> ElementStore \<times> nat list" where
  "propagateScore score al st =
     (case al of (ancestorId, level) \<Rightarrow>
      case st of (store, candidates) \<Rightarrow>
      case getElementInfo ancestorId store of
        None \<Rightarrow> st
      | Some ancestorInfo \<Rightarrow>
          if \<not> isVisibleBasedOnAttrs ancestorInfo \<or> isUnlikelyCandidate ancestorId store then st
          else
            (let store1 = (if readability ancestorInfo = None
                           then initializeNodeScore ancestorId store else store);
                 candidates1 =
                   (if readability ancestorInfo = None
                       \<and> initialScore ancestorId ancestorInfo store \<ge> 0
                       \<and> ancestorId \<notin> set candidates
                    then candidates @ [ancestorId] else candidates)
             in case getElementInfo ancestorId store1 of
                  None \<Rightarrow> (store1, candidates1)
                | Some info1 \<Rightarrow>
                    (case readability info1 of
                       None \<Rightarrow> (store1, candidates1)
                     | Some s \<Rightarrow>
                         (AList.update ancestorId
                            (info1\<lparr>readability := Some (s + of_nat score / scoreDivider level)\<rparr>)
                            store1,
                          candidates1))))"

text \<open>
  What one element of \<^verbatim>\<open>elementsToScoreIds\<close> passes up: nothing when the loop body
  hits a \<^verbatim>\<open>continue\<close>, else the score and the ancestors. The call
  \<^verbatim>\<open>getAncestorIds(elementId, elementStore, 5)\<close> is \<open>ancestorsWalk 5\<close>
  (\<open>getAncestorIds_bounded\<close>).
\<close>

definition elementContribution :: "nat \<Rightarrow> ElementStore \<Rightarrow> (nat \<times> nat list) option" where
  "elementContribution elementId store =
     (case getElementInfo elementId store of
        None \<Rightarrow> None
      | Some elementInfo \<Rightarrow>
          if \<not> isVisibleBasedOnAttrs elementInfo then None
          else (let innerText = getInnerText elementId store True in
                if length innerText < 25 then None
                else (let ancestorIds = ancestorsWalk 5 store elementId in
                      if length ancestorIds = 0 then None
                      else Some (contentScore innerText, ancestorIds))))"

definition scoreElement :: "nat \<Rightarrow> ElementStore \<times> nat list \<Rightarrow> ElementStore \<times> nat list" where
  "scoreElement elementId st =
     (case elementContribution elementId (fst st) of
        None \<Rightarrow> st
      | Some (score, ancestorIds) \<Rightarrow>
          fold (propagateScore score) (zip ancestorIds [0 ..< length ancestorIds]) st)"

text \<open>Steps 1 and 2: the store with the propagated scores, and the candidates.\<close>

definition propagateAll :: "ElementStore \<Rightarrow> ElementStore \<times> nat list" where
  "propagateAll store = fold scoreElement (elementsToScoreIds store) (store, [])"

text \<open>Step 3: the score of each candidate is scaled by its link density.\<close>

fun adjustCandidates ::
  "nat \<Rightarrow> nat list \<Rightarrow> ElementStore \<Rightarrow> (ElementStore \<times> (nat \<times> rat) list) option" where
  "adjustCandidates fuel [] store = Some (store, [])"
| "adjustCandidates fuel (i # is) store =
     (case getElementInfo i store of
        None \<Rightarrow> adjustCandidates fuel is store
      | Some candidateInfo \<Rightarrow>
          (case readability candidateInfo of
             None \<Rightarrow> adjustCandidates fuel is store
           | Some s \<Rightarrow>
               (case getLinkDensity fuel i store of
                  None \<Rightarrow> None
                | Some linkDensity \<Rightarrow>
                    (let finalScore = s * (1 - linkDensity);
                         store1 = AList.update i (candidateInfo\<lparr>readability := Some finalScore\<rparr>) store
                     in map_option (\<lambda>(store2, scores). (store2, (i, finalScore) # scores))
                          (adjustCandidates fuel is store1)))))"

definition candidateScores :: "ElementStore \<Rightarrow> (ElementStore \<times> (nat \<times> rat) list) option" where
  "candidateScores store =
     (case propagateAll store of (store1, candidates) \<Rightarrow>
        adjustCandidates (stackFuel store) candidates store1)"

text \<open>Step 4: the candidates with a positive score, best first (the sort is stable).\<close>

definition sortedCandidates :: "(nat \<times> rat) list \<Rightarrow> (nat \<times> rat) list" where
  "sortedCandidates scores = sort_key (\<lambda>(i, s). - s) (filter (\<lambda>(i, s). s > 0) scores)"

text \<open>A JavaScript truthiness test on an id or null: null and 0 are falsy.\<close>

definition truthyId :: "nat option \<Rightarrow> bool" where
  "truthyId v = (v \<noteq> None \<and> v \<noteq> Some 0)"

definition scoreOf :: "nat \<Rightarrow> ElementStore \<Rightarrow> rat \<Rightarrow> rat" where
  "scoreOf i store dflt =
     (case getElementInfo i store of
        None \<Rightarrow> dflt
      | Some info \<Rightarrow> (case readability info of None \<Rightarrow> dflt | Some s \<Rightarrow> s))"

text \<open>Step 5, first loop: climb while the parent scores higher.\<close>

fun climbByScore :: "nat \<Rightarrow> ElementStore \<Rightarrow> nat \<Rightarrow> rat \<Rightarrow> (nat \<times> rat) option" where
  "climbByScore 0 store currentCandidateId currentScore = None"
| "climbByScore (Suc n) store currentCandidateId currentScore =
     (let parent = getParentId currentCandidateId store in
      if \<not> truthyId parent then Some (currentCandidateId, currentScore)
      else (let parentScore = scoreOf (the parent) store (- 1) in
            if parentScore < currentScore / 3 then Some (currentCandidateId, currentScore)
            else if parentScore > currentScore then climbByScore n store (the parent) parentScore
            else Some (currentCandidateId, currentScore)))"

text \<open>Step 5, second loop: climb while the parent has a single child.\<close>

fun climbSoleChild :: "nat \<Rightarrow> ElementStore \<Rightarrow> nat \<Rightarrow> nat option" where
  "climbSoleChild 0 store topId = None"
| "climbSoleChild (Suc n) store topId =
     (let parent = getParentId topId store in
      if truthyId parent \<and> getElementInfo topId store \<noteq> None
         \<and> map_option tagName (getElementInfo topId store) \<noteq> Some ''BODY''
      then (if length (getChildrenIds (the parent) store) = 1
            then climbSoleChild n store (the parent)
            else Some topId)
      else Some topId)"

text \<open>Step 6: the candidate, the siblings that score enough, and their subtrees.\<close>

definition setAdd :: "nat \<Rightarrow> nat list \<Rightarrow> nat list" where
  "setAdd x xs = (if x \<in> set xs then xs else xs @ [x])"

definition addSubtree :: "nat \<Rightarrow> nat \<Rightarrow> ElementStore \<Rightarrow> nat list \<Rightarrow> nat list option" where
  "addSubtree fuel i store keep =
     map_option (\<lambda>ds. fold setAdd ds (setAdd i keep)) (getDescendantIds fuel i store)"

fun combineSiblings ::
  "nat \<Rightarrow> ElementStore \<Rightarrow> nat \<Rightarrow> rat \<Rightarrow> nat list \<Rightarrow> nat list \<Rightarrow> nat list option" where
  "combineSiblings fuel store topId threshold [] keep = Some keep"
| "combineSiblings fuel store topId threshold (siblingId # rest) keep =
     (case getElementInfo siblingId store of
        None \<Rightarrow> combineSiblings fuel store topId threshold rest keep
      | Some siblingInfo \<Rightarrow>
          if \<not> isVisibleBasedOnAttrs siblingInfo
          then combineSiblings fuel store topId threshold rest keep
          else if siblingId = topId \<or> scoreOf siblingId store 0 + 0 \<ge> threshold
          then (case addSubtree fuel siblingId store keep of
                  None \<Rightarrow> None
                | Some keep1 \<Rightarrow> combineSiblings fuel store topId threshold rest keep1)
          else combineSiblings fuel store topId threshold rest keep)"

definition elementsToKeep :: "nat \<Rightarrow> ElementStore \<Rightarrow> nat \<Rightarrow> rat \<Rightarrow> nat list option" where
  "elementsToKeep fuel store topId topCandidateScore =
     (let finalTopCandidateParentId = getParentId topId store in
      if truthyId finalTopCandidateParentId \<and> topId \<noteq> 0
      then combineSiblings fuel store topId (max 10 (topCandidateScore * (2 / 10)))
             (getChildrenIds (the finalTopCandidateParentId) store) []
      else if topId \<noteq> 0 then addSubtree fuel topId store []
      else Some [])"

text \<open>Step 7: the text length of the retained visible elements.\<close>

definition totalTextLength :: "ElementStore \<Rightarrow> nat list \<Rightarrow> nat" where
  "totalTextLength store keep =
     sum_list (map (\<lambda>i. case getElementInfo i store of
                          None \<Rightarrow> 0
                        | Some info \<Rightarrow>
                            if isVisibleBasedOnAttrs info
                            then length (getInnerText i store True) else 0) keep)"

text \<open>
  Steps 4 to 6 on the adjusted store: nothing when no candidate is positive, else the
  final candidate and the retained ids.
\<close>

definition selectCandidate ::
  "nat \<Rightarrow> ElementStore \<Rightarrow> (nat \<times> rat) list \<Rightarrow> (nat \<times> nat list) option option" where
  "selectCandidate fuel store scores =
     (case sortedCandidates scores of
        [] \<Rightarrow> Some None
      | (firstId, firstScore) # _ \<Rightarrow>
          (case climbByScore fuel store firstId firstScore of
             None \<Rightarrow> None
           | Some (climbedId, topCandidateScore) \<Rightarrow>
               (case climbSoleChild fuel store climbedId of
                  None \<Rightarrow> None
                | Some topId \<Rightarrow>
                    map_option (\<lambda>keep. Some (topId, keep))
                      (elementsToKeep fuel store topId topCandidateScore))))"

text \<open>Steps 1 to 6, with the store as the scoring has left it.\<close>

definition selection ::
  "ElementStore \<Rightarrow> ((nat \<times> nat list) option \<times> ElementStore) option" where
  "selection store =
     (case candidateScores store of
        None \<Rightarrow> None
      | Some (store1, scores) \<Rightarrow>
          map_option (\<lambda>sel. (sel, store1)) (selectCandidate (stackFuel store) store1 scores))"

definition effectiveThreshold :: "ScoringOptions \<Rightarrow> int" where
  "effectiveThreshold options =
     (case charThreshold options of None \<Rightarrow> CHAR_THRESHOLD | Some t \<Rightarrow> t)"

text \<open>
  The scorer. It returns the result together with the store it has mutated (the
  scores); \<open>None\<close> stands for a run that does not return.
\<close>

definition calculateScoresAndFindBestCandidate ::
  "ElementStore \<Rightarrow> ScoringOptions \<Rightarrow> (ScoringResult \<times> ElementStore) option" where
  "calculateScoresAndFindBestCandidate store options =
     (case selection store of
        None \<Rightarrow> None
      | Some (None, store1) \<Rightarrow> Some (emptyResult, store1)
      | Some (Some (topId, keep), store1) \<Rightarrow>
          if int (totalTextLength store1 keep) < effectiveThreshold options
          then Some (emptyResult, store1)
          else Some (\<lparr>topCandidateId = Some topId, elementsToKeepIds = keep\<rparr>, store1))"

text \<open>
  One step of the second climb: \<open>c\<close> has a record whose tag is not \<^verbatim>\<open>BODY\<close>, and
  its parent \<open>p\<close> (a truthy id) has exactly one child.
\<close>

definition soleStep :: "ElementStore \<Rightarrow> nat \<Rightarrow> nat \<Rightarrow> bool" where
  "soleStep store c p =
     (getParentId c store = Some p \<and> p \<noteq> 0 \<and>
      (case getElementInfo c store of None \<Rightarrow> False | Some info \<Rightarrow> tagName info \<noteq> ''BODY'') \<and>
      length (getChildrenIds p store) = 1)"


section \<open>Serializer (markdown-converter.ts)\<close>

text \<open>Escaping of the Markdown special characters: each gets a backslash in front.\<close>

definition markdownSpecials :: string where
  "markdownSpecials = [CHR 0x5C, CHR 0x60] @ ''*_{}[]()#+.!-''"

definition escapeMarkdown :: "string \<Rightarrow> string" where
  "escapeMarkdown s = concat (map (\<lambda>c. if c \<in> set markdownSpecials then [CHR 0x5C, c] else [c]) s)"

definition NL :: char where
  "NL = CHR 0x0A"

definition joinWith :: "string \<Rightarrow> string list \<Rightarrow> string" where
  "joinWith sep xs = (case xs of [] \<Rightarrow> [] | y # ys \<Rightarrow> y @ concat (map (\<lambda>z. sep @ z) ys))"

text \<open>\<^verbatim>\<open>s.replace(/\n{3,}/g, '\n\n')\<close>: a run of three or more newlines becomes two.\<close>

function collapseNewlines :: "string \<Rightarrow> string" where
  "collapseNewlines [] = []"
| "collapseNewlines (c # cs) =
     (if c = NL \<and> length (takeWhile (\<lambda>x. x = NL) cs) \<ge> 2
      then NL # NL # collapseNewlines (dropWhile (\<lambda>x. x = NL) cs)
      else if c = NL
      then c # takeWhile (\<lambda>x. x = NL) cs @ collapseNewlines (dropWhile (\<lambda>x. x = NL) cs)
      else c # collapseNewlines cs)"
  by pat_completeness auto
termination
  by (relation "measure length") (auto intro: le_imp_less_Suc length_dropWhile_le)

text \<open>The decimal numeral of a list item number.\<close>

definition digitChar :: "nat \<Rightarrow> char" where
  "digitChar d = ''0123456789'' ! d"

function showNat :: "nat \<Rightarrow> string" where
  "showNat n = (if n < 10 then [digitChar n] else showNat (n div 10) @ [digitChar (n mod 10)])"
  by pat_completeness auto
termination
  by (relation "measure id") auto

text \<open>\<^verbatim>\<open>'  '.repeat(k)\<close>.\<close>

definition indentOf :: "nat \<Rightarrow> string" where
  "indentOf k = concat (replicate k ''  '')"

text \<open>\<^verbatim>\<open>cls.match(/language-(\S+)/)\<close>: the first capture of the leftmost match.\<close>

fun matchLanguage :: "string \<Rightarrow> string option" where
  "matchLanguage [] = None"
| "matchLanguage (c # cs) =
     (if startsWith (c # cs) ''language-''
         \<and> takeWhile (\<lambda>x. \<not> isSpace x) (drop 9 (c # cs)) \<noteq> []
      then Some (takeWhile (\<lambda>x. \<not> isSpace x) (drop 9 (c # cs)))
      else matchLanguage cs)"

text \<open>
  The converter object. \<open>newURL rel base\<close> stands for
  \<^verbatim>\<open>new URL(rel, base).href\<close> of the host, \<open>None\<close> when it throws.
\<close>

record MarkdownConverter =
  elementStore_c :: ElementStore
  elementsToKeepIdsSet_c :: "nat list"
  baseURI_c :: string
  newURL :: "string \<Rightarrow> string \<Rightarrow> string option"

definition resolveAgainst :: "MarkdownConverter \<Rightarrow> string \<Rightarrow> string" where
  "resolveAgainst cv u = (case newURL cv u (baseURI_c cv) of None \<Rightarrow> u | Some r \<Rightarrow> r)"

text \<open>
  The \<^verbatim>\<open>switch\<close> of \<^verbatim>\<open>convertNodeRecursive\<close>: the Markdown of one element from
  its escaped text and the Markdown of its children.
\<close>

definition heading :: "string \<Rightarrow> string \<Rightarrow> string \<Rightarrow> string \<Rightarrow> string" where
  "heading listIndent marks elementText childrenMarkdown =
     listIndent @ marks @ '' '' @ elementText @ childrenMarkdown @ [NL, NL]"

definition renderListItem :: "string \<Rightarrow> bool \<Rightarrow> nat \<Rightarrow> string \<Rightarrow> string" where
  "renderListItem listIndent isListOrdered listItemNumber content =
     (let marker = (if isListOrdered then showNat listItemNumber @ ''.'' else ''*'');
          itemIndent = listIndent @ ''  '';
          lines = splitOn NL (trim content);
          liContent = joinWith [NL]
            (map (\<lambda>(line, index). if index > 0 then itemIndent @ trim line else trim line)
               (zip lines [0 ..< length lines]))
      in listIndent @ marker @ '' '' @ liContent @ [NL])"

definition renderLink :: "MarkdownConverter \<Rightarrow> ElementInfo \<Rightarrow> string \<Rightarrow> string \<Rightarrow> string" where
  "renderLink cv info elementText childrenMarkdown =
     (let href0 = attr info ''href'';
          href = (if href0 \<noteq> [] \<and> \<not> startsWith href0 ''http'' \<and> \<not> startsWith href0 ''#''
                     \<and> \<not> startsWith href0 ''mailto:'' \<and> \<not> startsWith href0 ''tel:''
                  then resolveAgainst cv href0 else href0);
          linkText = (if trim childrenMarkdown \<noteq> [] then trim childrenMarkdown else elementText)
      in ''['' @ escapeMarkdown linkText @ ''](''  @ href @ '')'')"

definition renderImage :: "MarkdownConverter \<Rightarrow> ElementInfo \<Rightarrow> string \<Rightarrow> string" where
  "renderImage cv info listIndent =
     (let src0 = attr info ''src'';
          src = (if src0 \<noteq> [] \<and> \<not> startsWith src0 ''http'' \<and> \<not> startsWith src0 ''data:''
                 then resolveAgainst cv src0 else src0);
          alt = attr info ''alt'';
          titlePart = (if attr info ''title'' \<noteq> []
                   then [CHR '' '', CHR 0x22] @ escapeHtml (Some (attr info ''title'')) @ [CHR 0x22]
                   else [])
      in listIndent @ ''!['' @ escapeMarkdown alt @ ''](''  @ src @ titlePart @ '')'' @ [NL, NL])"

definition renderPre :: "MarkdownConverter \<Rightarrow> nat \<Rightarrow> nat list \<Rightarrow> string \<Rightarrow> string" where
  "renderPre cv i children listIndent =
     (let store = elementStore_c cv;
          codeChild = find (\<lambda>cinfo. map_option tagName cinfo = Some ''CODE'')
                        (map (\<lambda>cid. map_of store cid) children);
          codeContent = (case codeChild of
                           Some (Some cinfo) \<Rightarrow> getInnerText (elemId cinfo) store False
                         | _ \<Rightarrow> getInnerText i store False);
          lang = (case codeChild of
                    Some (Some cinfo) \<Rightarrow>
                      (case map_of (attributes cinfo) ''class'' of
                         None \<Rightarrow> []
                       | Some cls \<Rightarrow> (case matchLanguage cls of None \<Rightarrow> [] | Some l \<Rightarrow> l))
                  | _ \<Rightarrow> [])
      in listIndent @ [CHR 0x60, CHR 0x60, CHR 0x60] @ lang @ [NL] @ trim codeContent @ [NL]
         @ listIndent @ [CHR 0x60, CHR 0x60, CHR 0x60] @ [NL, NL])"

definition renderNode ::
  "MarkdownConverter \<Rightarrow> nat \<Rightarrow> ElementInfo \<Rightarrow> nat list \<Rightarrow> nat \<Rightarrow> bool \<Rightarrow> nat \<Rightarrow> string \<Rightarrow> string" where
  "renderNode cv i info children listLevel isListOrdered listItemNumber childrenMarkdown =
     (let tag = tagName info;
          rawDirectText = getInnerText i (elementStore_c cv) False;
          elementText = (if rawDirectText \<noteq> [] then escapeMarkdown rawDirectText else []);
          listIndent = indentOf (if listLevel > 0 then listLevel - 1 else 0)
      in if tag = ''P'' then
           (let pContent = trim (elementText @ childrenMarkdown)
            in if pContent \<noteq> [] then listIndent @ pContent @ [NL, NL] else [])
         else if tag = ''H1'' then heading listIndent ''#'' elementText childrenMarkdown
         else if tag = ''H2'' then heading listIndent ''##'' elementText childrenMarkdown
         else if tag = ''H3'' then heading listIndent ''###'' elementText childrenMarkdown
         else if tag = ''H4'' then heading listIndent ''####'' elementText childrenMarkdown
         else if tag = ''H5'' then heading listIndent ''#####'' elementText childrenMarkdown
         else if tag = ''H6'' then heading listIndent ''######'' elementText childrenMarkdown
         else if tag = ''UL'' \<or> tag = ''OL'' then
           (if startsWith childrenMarkdown [NL] then childrenMarkdown else NL # childrenMarkdown)
         else if tag = ''LI'' then
           renderListItem listIndent isListOrdered listItemNumber (elementText @ childrenMarkdown)
         else if tag = ''A'' then renderLink cv info elementText childrenMarkdown
         else if tag = ''IMG'' then renderImage cv info listIndent
         else if tag = ''PRE'' then renderPre cv i children listIndent
         else if tag = ''CODE'' then
           (if \<not> isCodeBlock info
            then [CHR 0x60] @ trim (elementText @ childrenMarkdown) @ [CHR 0x60]
            else [])
         else if tag = ''STRONG'' \<or> tag = ''B'' then ''**'' @ elementText @ childrenMarkdown @ ''**''
         else if tag = ''EM'' \<or> tag = ''I'' then ''*'' @ elementText @ childrenMarkdown @ ''*''
         else if tag = ''BLOCKQUOTE'' then
           joinWith [NL]
             (map (\<lambda>line. listIndent @ ''> '' @ trim line)
                (splitOn NL (trim (elementText @ childrenMarkdown)))) @ [NL, NL]
         else if tag = ''HR'' then listIndent @ ''---'' @ [NL, NL]
         else if tag = ''BR'' then [CHR '' '', CHR '' '', NL]
         else if tag \<in> set [''DIV'', ''SPAN'', ''SECTION'', ''ARTICLE'', ''FIGURE'', ''FIGCAPTION'',
                            ''HEADER'', ''FOOTER'', ''ASIDE'', ''NAV'']
         then elementText @ childrenMarkdown
         else if tag \<notin> set VOID_ELEMENTS then elementText @ childrenMarkdown
         else [])"

text \<open>
  \<^verbatim>\<open>convertNodeRecursive\<close>. The first argument bounds the nesting of the calls, as
  for the tree queries.
\<close>

fun convertNodeRecursive ::
  "nat \<Rightarrow> MarkdownConverter \<Rightarrow> nat \<Rightarrow> nat \<Rightarrow> bool \<Rightarrow> nat \<Rightarrow> string option" where
  "convertNodeRecursive 0 cv i listLevel isListOrdered listItemNumber = None"
| "convertNodeRecursive (Suc n) cv i listLevel isListOrdered listItemNumber =
     (case map_of (elementStore_c cv) i of
        None \<Rightarrow> Some []
      | Some info \<Rightarrow>
          if i \<notin> set (elementsToKeepIdsSet_c cv) then Some []
          else
            (let tag = tagName info;
                 children = getChildrenIds i (elementStore_c cv);
                 nextLevel = (if tag = ''UL'' \<or> tag = ''OL'' \<or> tag = ''LI'' then listLevel + 1 else 0);
                 isNextListOrdered = (tag = ''OL'')
             in map_option
                  (\<lambda>parts. renderNode cv i info children listLevel isListOrdered listItemNumber
                              (concat parts))
                  (those (map (\<lambda>(childId, index).
                                 convertNodeRecursive n cv childId nextLevel isNextListOrdered
                                   (if tag = ''OL'' then index + 1 else 1))
                            (zip children [0 ..< length children])))))"

definition convert :: "MarkdownConverter \<Rightarrow> nat option \<Rightarrow> string option" where
  "convert cv rootElementId =
     (case rootElementId of
        None \<Rightarrow> Some []
      | Some rootId \<Rightarrow>
          map_option (\<lambda>parts. trim (collapseNewlines (concat parts)))
            (those (map (\<lambda>childId. convertNodeRecursive (stackFuel (elementStore_c cv)) cv childId
                                       0 False 1)
                      (getChildrenIds rootId (elementStore_c cv)))))"

section \<open>Entry point (html-rewriter-readability.ts)\<close>

text \<open>
  The options of an instance. An absent value takes its default where it is read:
  no cap on the elements, a character threshold of 500.
\<close>

record ReadabilityOptions =
  maxElemsToParse_o :: "int option"
  nbTopCandidates_o :: "int option"
  charThreshold_o :: "int option"
  linkDensityModifier_o :: "rat option"

record HtmlRewriterReadability =
  elementStore_i :: ElementStore
  metadataStore_i :: Metadata
  elementCounter_i :: nat
  elementsToKeepIdsSet_i :: "nat list"
  options_i :: ReadabilityOptions
  baseURI_i :: string

definition resetState :: "HtmlRewriterReadability \<Rightarrow> HtmlRewriterReadability" where
  "resetState inst =
     inst\<lparr>elementStore_i := [], elementsToKeepIdsSet_i := [],
          metadataStore_i := emptyMetadata, elementCounter_i := 0\<rparr>"

text \<open>
  \<^verbatim>\<open>runPhase1\<close>: the handler works on the store, the metadata and the counter of the
  instance; the host delivers the events of the response to it.
\<close>

definition runPhase1 :: "HtmlRewriterReadability \<Rightarrow> event list \<Rightarrow> HtmlRewriterReadability" where
  "runPhase1 inst0 evs =
     (let inst = resetState inst0;
          h = runEvents
                \<lparr>elementStore = elementStore_i inst, metadataStore = metadataStore_i inst,
                 elementCounter = elementCounter_i inst,
                 maxElemsToParse =
                   (case maxElemsToParse_o (options_i inst) of None \<Rightarrow> 0 | Some m \<Rightarrow> m),
                 elementStack = [], elementCount = 0, lastTextChunkMap = []\<rparr> evs
      in inst\<lparr>elementStore_i := elementStore h, metadataStore_i := metadataStore h,
              elementCounter_i := elementCounter h\<rparr>)"

text \<open>The options that \<^verbatim>\<open>runPhase2\<close> hands to the scorer.\<close>

definition scoringOptionsOf :: "HtmlRewriterReadability \<Rightarrow> ScoringOptions" where
  "scoringOptionsOf inst =
     \<lparr>nbTopCandidates = nbTopCandidates_o (options_i inst),
      charThreshold = charThreshold_o (options_i inst),
      linkDensityModifier = linkDensityModifier_o (options_i inst)\<rparr>"

definition runPhase2 ::
  "HtmlRewriterReadability \<Rightarrow> (ScoringResult \<times> HtmlRewriterReadability) option" where
  "runPhase2 inst =
     map_option (\<lambda>(result, store1). (result, inst\<lparr>elementStore_i := store1\<rparr>))
       (calculateScoresAndFindBestCandidate (elementStore_i inst) (scoringOptionsOf inst))"

definition convertToMarkdown ::
  "(string \<Rightarrow> string \<Rightarrow> string option) \<Rightarrow> HtmlRewriterReadability \<Rightarrow> nat option \<Rightarrow> string option" where
  "convertToMarkdown url inst rootElementId =
     (case rootElementId of
        None \<Rightarrow> Some []
      | Some rootId \<Rightarrow>
          convert \<lparr>elementStore_c = elementStore_i inst,
                   elementsToKeepIdsSet_c = elementsToKeepIdsSet_i inst,
                   baseURI_c = baseURI_i inst, newURL = url\<rparr> (Some rootId))"

text \<open>
  \<^verbatim>\<open>process\<close>: the result is null (\<open>None\<close> inside) or the Markdown with the metadata;
  the instance is returned as the call leaves it. The outer \<open>None\<close> stands for a call
  that does not return.
\<close>

definition process ::
  "(string \<Rightarrow> string \<Rightarrow> string option) \<Rightarrow> HtmlRewriterReadability \<Rightarrow> event list
     \<Rightarrow> ((string \<times> Metadata) option \<times> HtmlRewriterReadability) option" where
  "process url inst0 evs =
     (case runPhase2 (runPhase1 inst0 evs) of
        None \<Rightarrow> None
      | Some (result, inst) \<Rightarrow>
          if \<not> truthyId (topCandidateId result) \<or> length (elementsToKeepIds result) = 0
          then Some (None, inst)
          else
            (let inst1 = inst\<lparr>elementsToKeepIdsSet_i := fold setAdd (elementsToKeepIds result) []\<rparr>;
                 topId = the (topCandidateId result);
                 rootBuildId = (case getParentId topId (elementStore_i inst1) of
                                  None \<Rightarrow> topId | Some p \<Rightarrow> p)
             in map_option (\<lambda>markdown. (Some (markdown, metadataStore_i inst1), inst1))
                  (convertToMarkdown url inst1 (Some rootBuildId))))"

section \<open>Well-formed stores\<close>

text \<open>
  The parent of a record has a smaller id: the tree builder creates a record after its
  parent. On such a store the recursive helpers return. The skeleton of a store is what
  the scorer leaves unchanged: the ids with their parents.
\<close>

definition parentBelow :: "nat \<times> ElementInfo \<Rightarrow> bool" where
  "parentBelow e = (case parentId (snd e) of None \<Rightarrow> True | Some p \<Rightarrow> p < fst e)"

definition wfStore :: "ElementStore \<Rightarrow> bool" where
  "wfStore store = list_all parentBelow store"

definition skeleton :: "ElementStore \<Rightarrow> (nat \<times> nat option) list" where
  "skeleton store = map (\<lambda>e. (fst e, parentId (snd e))) store"


text \<open>The tree builder keeps the store well-formed and the open elements created.\<close>

definition p1Inv :: "Phase1Handler \<Rightarrow> bool" where
  "p1Inv h = (wfStore (elementStore h) \<and> (\<forall>s \<in> set (elementStack h). s \<le> elementCounter h))"


text \<open>
  First-writer-wins for one field, and for the fields that are written behind a
  falsiness test (\<^verbatim>\<open>jsonLd\<close> is never written).
\<close>

definition keepsSet :: "string option \<Rightarrow> string option \<Rightarrow> bool" where
  "keepsSet old new = (\<not> falsy old \<longrightarrow> new = old)"

definition firstWriterFields :: "Metadata \<Rightarrow> Metadata \<Rightarrow> bool" where
  "firstWriterFields m m' =
     (keepsSet (title m) (title m') \<and> keepsSet (byline m) (byline m') \<and>
      keepsSet (excerpt m) (excerpt m') \<and> keepsSet (siteName m) (siteName m') \<and>
      keepsSet (publishedTime m) (publishedTime m') \<and> jsonLd m' = jsonLd m)"





text \<open>A start tag that the skip check lets through.\<close>

definition recordable :: "event \<Rightarrow> bool" where
  "recordable ev = (case ev of StartTag tag attrs _ \<Rightarrow> \<not> isSkippedTag (toUpperCase tag) attrs | _ \<Rightarrow> False)"

text \<open>
  The bound behind the element cap: the store holds at most \<open>elementCount - d\<close>
  records, and an active cap bounds \<open>elementCount\<close>.
\<close>

definition capInv :: "nat \<Rightarrow> Phase1Handler \<Rightarrow> bool" where
  "capInv d h = (length (elementStore h) + d \<le> elementCount h \<and>
     (0 < maxElemsToParse h \<longrightarrow> int (elementCount h) \<le> maxElemsToParse h))"


section \<open>Example documents\<close>

text \<open>
  A page with one paragraph in a \<^verbatim>\<open>div\<close>, the only child of the body; the text
  has 40 characters and two commas.
\<close>

definition evA :: "event list" where
  "evA = [StartTag ''html'' [] True, StartTag ''head'' [] True, EndTag,
     StartTag ''body'' [] True, StartTag ''div'' [] True, StartTag ''p'' [] True,
     TextChunk ''Hello, this is a long text, with commas.'', EndTag, EndTag, EndTag, EndTag]"

definition stA :: ElementStore where
  "stA = elementStore (runEvents (newPhase1Handler 0) evA)"



text \<open>A \<^verbatim>\<open>pre\<close> with a \<^verbatim>\<open>code\<close> child, and a paragraph with inline code.\<close>

definition evPre :: "event list" where
  "evPre = [StartTag ''div'' [] True, StartTag ''pre'' [] True,
     StartTag ''code'' [(''class'', ''hl language-js x'')] True, TextChunk ''let x = 1;'',
     EndTag, EndTag,
     StartTag ''p'' [] True, TextChunk ''Use '', StartTag ''code'' [] True, TextChunk ''f'',
     EndTag, EndTag, EndTag]"

definition stPre :: ElementStore where
  "stPre = elementStore (runEvents (newPhase1Handler 0) evPre)"

definition noURL :: "string \<Rightarrow> string \<Rightarrow> string option" where
  "noURL rel base = None"

definition cvPre :: MarkdownConverter where
  "cvPre = \<lparr>elementStore_c = stPre, elementsToKeepIdsSet_c = [1, 2, 3, 4, 5],
     baseURI_c = ''https://example.com/'', newURL = noURL\<rparr>"

text \<open>An ordered list nested three levels deep.\<close>

definition evOl :: "event list" where
  "evOl = [StartTag ''div'' [] True, StartTag ''ol'' [] True,
      StartTag ''li'' [] True, TextChunk ''a'',
        StartTag ''ol'' [] True,
          StartTag ''li'' [] True, TextChunk ''b'',
            StartTag ''ol'' [] True,
              StartTag ''li'' [] True, TextChunk ''c'', EndTag,
              StartTag ''li'' [] True, TextChunk ''d'', EndTag,
            EndTag,
          EndTag,
          StartTag ''li'' [] True, TextChunk ''e'', EndTag,
        EndTag,
      EndTag,
      StartTag ''li'' [] True, TextChunk ''f'', EndTag,
      StartTag ''li'' [] True, TextChunk ''g'', EndTag,
    EndTag, EndTag]"

definition stOl :: ElementStore where
  "stOl = elementStore (runEvents (newPhase1Handler 0) evOl)"

definition cvOl :: MarkdownConverter where
  "cvOl = \<lparr>elementStore_c = stOl, elementsToKeepIdsSet_c = [1 ..< 12],
     baseURI_c = ''https://example.com/'', newURL = noURL\<rparr>"




text \<open>Two instances with the same options and base URI, the second one used before.\<close>

definition instA :: HtmlRewriterReadability where
  "instA = \<lparr>elementStore_i = [], metadataStore_i = emptyMetadata, elementCounter_i = 0,
     elementsToKeepIdsSet_i = [],
     options_i = \<lparr>maxElemsToParse_o = None, nbTopCandidates_o = None,
                  charThreshold_o = Some 30, linkDensityModifier_o = None\<rparr>,
     baseURI_i = ''https://example.com/''\<rparr>"

definition instB :: HtmlRewriterReadability where
  "instB = instA\<lparr>elementStore_i := stPre, metadataStore_i := emptyMetadata\<lparr>lang := Some ''fr''\<rparr>,
     elementCounter_i := 7, elementsToKeepIdsSet_i := [1, 2]\<rparr>"


section \<open>The element cap\<close>

lemma length_update_le: "length (AList.update k v al) \<le> Suc (length al)"
  by (induction al) auto

lemma length_update_present:
  "map_of al k = Some x \<Longrightarrow> length (AList.update k v al) = length al"
  by (induction al) (auto split: if_splits)

lemma processSpecificTag_fields [simp]:
  "elementStore (processSpecificTag tag attrs h) = elementStore h"
  "elementCount (processSpecificTag tag attrs h) = elementCount h"
  "maxElemsToParse (processSpecificTag tag attrs h) = maxElemsToParse h"
  "elementStack (processSpecificTag tag attrs h) = elementStack h"
  "lastTextChunkMap (processSpecificTag tag attrs h) = lastTextChunkMap h"
  "elementCounter (processSpecificTag tag attrs h) = elementCounter h"
  by (simp_all add: processSpecificTag_def)

lemma registerElement_fields [simp]:
  "elementCount (registerElement tag i r h) = elementCount h"
  "maxElemsToParse (registerElement tag i r h) = maxElemsToParse h"
  "elementCounter (registerElement tag i r h) = elementCounter h"
  "metadataStore (registerElement tag i r h) = metadataStore h"
  by (simp_all add: registerElement_def Let_def split: option.splits list.splits)

lemma registerElement_length [simp]:
  "length (elementStore (registerElement tag i r h)) = length (elementStore h)"
  by (simp add: registerElement_def Let_def length_update_present split: option.splits list.splits)

lemma element_h_maxElems [simp]: "maxElemsToParse (element_h h tag attrs r) = maxElemsToParse h"
  by (simp add: element_h_def Let_def)

lemma element_h_count:
  "\<not> (0 < maxElemsToParse h \<and> maxElemsToParse h \<le> int (elementCount h)) \<Longrightarrow>
   elementCount (element_h h tag attrs r) = elementCount h + 1"
  by (simp add: element_h_def Let_def)

lemma element_h_store_length:
  "length (elementStore (element_h h tag attrs r)) \<le> Suc (length (elementStore h))"
  by (simp add: element_h_def Let_def length_update_le)

lemma element_h_blocked:
  "0 < maxElemsToParse h \<and> maxElemsToParse h \<le> int (elementCount h) \<Longrightarrow>
   element_h h tag attrs r = h"
  by (simp add: element_h_def)

lemma element_h_capInv: "capInv d h \<Longrightarrow> capInv d (element_h h tag attrs r)"
proof (cases "0 < maxElemsToParse h \<and> maxElemsToParse h \<le> int (elementCount h)")
  case True
  assume "capInv d h"
  then show ?thesis using True by (simp add: element_h_blocked)
next
  case False
  assume inv: "capInv d h"
  have c: "elementCount (element_h h tag attrs r) = elementCount h + 1"
    using False by (rule element_h_count)
  have l: "length (elementStore (element_h h tag attrs r)) \<le> Suc (length (elementStore h))"
    by (rule element_h_store_length)
  show ?thesis
    unfolding capInv_def using inv c l False by (auto simp: capInv_def)
qed

lemma onEndTag_capInv: "capInv d h \<Longrightarrow> capInv d (onEndTag h)"
  by (auto simp add: capInv_def onEndTag_def Let_def length_update_present split: list.splits option.splits)

lemma text_h_capInv: "capInv d h \<Longrightarrow> capInv d (text_h h c)"
  by (auto simp add: capInv_def text_h_def Let_def length_update_present getCurrentElementIdFromStack_def split: list.splits option.splits)

lemma handleEvent_capInv: "capInv d h \<Longrightarrow> capInv d (handleEvent h ev)"
  by (cases ev) (auto simp: element_h_capInv onEndTag_capInv text_h_capInv, simp add: capInv_def end_h_def)

lemma runEvents_capInv: "capInv d h \<Longrightarrow> capInv d (runEvents h evs)"
  unfolding runEvents_def by (induction evs arbitrary: h) (auto simp: handleEvent_capInv)

lemma handleEvent_maxElems [simp]: "maxElemsToParse (handleEvent h ev) = maxElemsToParse h"
  by (cases ev) (auto simp: onEndTag_def text_h_def end_h_def Let_def split: list.splits option.splits)

lemma runEvents_maxElems [simp]: "maxElemsToParse (runEvents h evs) = maxElemsToParse h"
  unfolding runEvents_def by (induction evs arbitrary: h) auto

lemma store_le_cap:
  "0 < n \<Longrightarrow> int (length (elementStore (runEvents (newPhase1Handler n) evs))) \<le> n"
proof -
  assume n: "0 < n"
  have "capInv 0 (newPhase1Handler n)" using n by (simp add: capInv_def newPhase1Handler_def)
  then have "capInv 0 (runEvents (newPhase1Handler n) evs)" by (rule runEvents_capInv)
  moreover have "maxElemsToParse (runEvents (newPhase1Handler n) evs) = n" by (simp add: newPhase1Handler_def)
  ultimately show ?thesis using n by (auto simp: capInv_def)
qed


lemma recordable_p: "recordable (StartTag ''p'' [] True)"
  by (simp add: recordable_def isSkippedTag_def toUpperCase_def toUpperChar_def
      lowerLetters_def upperLetters_def)

lemma skipped_script: "isSkippedTag (toUpperCase ''script'') []"
  by (simp add: isSkippedTag_def toUpperCase_def toUpperChar_def
      lowerLetters_def upperLetters_def)

lemma store_below_cap:
  assumes n: "0 < n"
  shows "int (length (elementStore (runEvents (newPhase1Handler n)
           (StartTag ''script'' [] True # replicate (Suc (nat n)) (StartTag ''p'' [] True))))) < n"
proof -
  let ?h1 = "element_h (newPhase1Handler n) ''script'' [] True"
  have "?h1 = (newPhase1Handler n)\<lparr>elementCount := 1\<rparr>"
    using n skipped_script by (simp add: element_h_def Let_def newPhase1Handler_def)
  then have "capInv 1 ?h1" using n by (simp add: capInv_def newPhase1Handler_def)
  then have "capInv 1 (runEvents ?h1 (replicate (Suc (nat n)) (StartTag ''p'' [] True)))"
    by (rule runEvents_capInv)
  moreover have "maxElemsToParse (runEvents ?h1 (replicate (Suc (nat n)) (StartTag ''p'' [] True))) = n"
    by (simp add: newPhase1Handler_def)
  moreover have "runEvents (newPhase1Handler n)
           (StartTag ''script'' [] True # replicate (Suc (nat n)) (StartTag ''p'' [] True))
        = runEvents ?h1 (replicate (Suc (nat n)) (StartTag ''p'' [] True))"
    by (simp add: runEvents_def)
  ultimately show ?thesis using n by (auto simp: capInv_def)
qed

lemma many_recordable:
  "int (length (filter recordable
      (StartTag ''script'' [] True # replicate (Suc (nat n)) (StartTag ''p'' [] True)))) > n"
  using recordable_p by (simp add: recordable_def skipped_script)

text \<open>
  Claim C10. With a cap \<open>n > 0\<close>, every start tag that is not refused by the cap
  raises \<open>elementCount\<close> by one before the skip check, and a skipped tag (script, style,
  noscript, iframe, stylesheet link) changes nothing else; the store built from a fresh
  handler never holds more than \<open>n\<close> records; and some event sequence with more than
  \<open>n\<close> recordable start tags leaves strictly fewer than \<open>n\<close> records.
\<close>

theorem start_tags_consume_cap:
  assumes "0 < n"
  shows "(\<forall>h tag attrs r. maxElemsToParse h = n \<and> int (elementCount h) < n \<longrightarrow>
            elementCount (element_h h tag attrs r) = elementCount h + 1 \<and>
            (isSkippedTag (toUpperCase tag) attrs \<longrightarrow>
               element_h h tag attrs r = h\<lparr>elementCount := elementCount h + 1\<rparr>)) \<and>
         (\<forall>evs. int (length (elementStore (runEvents (newPhase1Handler n) evs))) \<le> n) \<and>
         (\<exists>evs. n < int (length (filter recordable evs)) \<and>
            int (length (elementStore (runEvents (newPhase1Handler n) evs))) < n)"
proof (intro conjI allI impI)
  fix h :: Phase1Handler and tag attrs r
  assume a: "maxElemsToParse h = n \<and> int (elementCount h) < n"
  then show "elementCount (element_h h tag attrs r) = elementCount h + 1"
    by (simp add: element_h_count)
  assume "isSkippedTag (toUpperCase tag) attrs"
  then show "element_h h tag attrs r = h\<lparr>elementCount := elementCount h + 1\<rparr>"
    using a by (simp add: element_h_def Let_def)
next
  fix evs
  show "int (length (elementStore (runEvents (newPhase1Handler n) evs))) \<le> n"
    using assms by (rule store_le_cap)
next
  show "\<exists>evs. n < int (length (filter recordable evs)) \<and>
            int (length (elementStore (runEvents (newPhase1Handler n) evs))) < n"
    using store_below_cap[OF assms] many_recordable[of n] by blast
qed

text \<open>
  The cap 2 with one script tag followed by three paragraphs: the script tag consumes a
  unit and records nothing.
\<close>

theorem start_tags_consume_cap_witness:
  "(0::int) < 2 \<and>
   elementCount (element_h (newPhase1Handler 2) ''script'' [] True) = 1 \<and>
   elementStore (element_h (newPhase1Handler 2) ''script'' [] True) = [] \<and>
   length (elementStore (runEvents (newPhase1Handler 2)
     [StartTag ''script'' [] True, StartTag ''p'' [] True, StartTag ''p'' [] True,
      StartTag ''p'' [] True])) \<le> 2"
proof -
  have pos: "(0::int) < 2" by simp
  note t = start_tags_consume_cap [OF pos]
  have a: "maxElemsToParse (newPhase1Handler 2) = 2 \<and> int (elementCount (newPhase1Handler 2)) < 2"
    by (simp add: newPhase1Handler_def)
  have s: "isSkippedTag (toUpperCase ''script'') []" by (rule skipped_script)
  from t a s have "element_h (newPhase1Handler 2) ''script'' [] True
      = (newPhase1Handler 2)\<lparr>elementCount := elementCount (newPhase1Handler 2) + 1\<rparr>"
    by blast
  then have e: "elementCount (element_h (newPhase1Handler 2) ''script'' [] True) = 1 \<and>
      elementStore (element_h (newPhase1Handler 2) ''script'' [] True) = []"
    by (simp add: newPhase1Handler_def)
  from t have "int (length (elementStore (runEvents (newPhase1Handler 2)
     [StartTag ''script'' [] True, StartTag ''p'' [] True, StartTag ''p'' [] True,
      StartTag ''p'' [] True]))) \<le> 2" by blast
  with pos e show ?thesis by simp
qed


section \<open>Suppression of repeated text chunks\<close>













section \<open>Metadata fields\<close>

lemma mergeField_keeps: "keepsSet cur (mergeField cur ext)"
  by (simp add: keepsSet_def mergeField_def split: option.splits)

lemma handleEvent_firstWriter:
  "firstWriterFields (metadataStore h) (metadataStore (handleEvent h ev))"
proof (cases ev)
  case (StartTag tag attrs r)
  then show ?thesis
    using mergeField_keeps
    by (simp add: firstWriterFields_def element_h_def Let_def processSpecificTag_def
        mergeMetadata_def keepsSet_def)
next
  case (TextChunk c)
  then show ?thesis
    by (simp add: firstWriterFields_def text_h_def Let_def keepsSet_def split: option.splits)
next
  case EndTag
  then show ?thesis
    by (simp add: firstWriterFields_def onEndTag_def Let_def keepsSet_def
        split: option.splits list.splits)
next
  case DocumentEnd
  then show ?thesis by (simp add: firstWriterFields_def end_h_def keepsSet_def)
qed

lemma firstWriterFields_trans:
  "firstWriterFields a b \<Longrightarrow> firstWriterFields b c \<Longrightarrow> firstWriterFields a c"
  by (auto simp add: firstWriterFields_def keepsSet_def)

lemma firstWriterFields_refl: "firstWriterFields a a"
  by (simp add: firstWriterFields_def keepsSet_def)

lemma runEvents_firstWriter:
  "firstWriterFields (metadataStore h) (metadataStore (runEvents h evs))"
  unfolding runEvents_def
proof (induction evs arbitrary: h)
  case Nil
  show ?case by (simp add: firstWriterFields_refl)
next
  case (Cons ev evs)
  have "firstWriterFields (metadataStore h) (metadataStore (handleEvent h ev))"
    by (rule handleEvent_firstWriter)
  moreover have "firstWriterFields (metadataStore (handleEvent h ev))
      (metadataStore (foldl handleEvent (handleEvent h ev) evs))" by (rule Cons.IH)
  ultimately show ?case using firstWriterFields_trans by simp
qed

text \<open>
  Claim C8 at two \<^verbatim>\<open>html\<close> start tags: the second one overwrites the language
  set by the first and clears the direction, while the fields written from
  \<^verbatim>\<open>meta\<close> and \<^verbatim>\<open>title\<close> are kept once set (\<open>runEvents_firstWriter\<close>).
\<close>

theorem html_start_tag_overwrites_lang:
  "lang (metadataStore (runEvents (newPhase1Handler 0)
      [StartTag ''html'' [(''lang'', ''en''), (''dir'', ''ltr'')] True])) = Some ''en'' \<and>
   lang (metadataStore (runEvents (newPhase1Handler 0)
      [StartTag ''html'' [(''lang'', ''en''), (''dir'', ''ltr'')] True,
       StartTag ''html'' [(''lang'', ''fr'')] True])) = Some ''fr'' \<and>
   dir (metadataStore (runEvents (newPhase1Handler 0)
      [StartTag ''html'' [(''lang'', ''en''), (''dir'', ''ltr'')] True,
       StartTag ''html'' [(''lang'', ''fr'')] True])) = None"
  by code_simp

section \<open>Termination on well-formed stores\<close>

lemma wfStore_skeleton: "skeleton s = skeleton t \<Longrightarrow> wfStore s = wfStore t"
proof -
  assume a: "skeleton s = skeleton t"
  have "\<And>u. wfStore u = list_all (\<lambda>(i, p). case p of None \<Rightarrow> True | Some q \<Rightarrow> q < i) (skeleton u)"
    by (simp add: wfStore_def skeleton_def list_all_iff parentBelow_def)
  then show ?thesis using a by simp
qed

lemma length_skeleton: "skeleton s = skeleton t \<Longrightarrow> length s = length t"
  by (metis length_map skeleton_def)

lemma children_skeleton: "skeleton s = skeleton t \<Longrightarrow> getChildrenIds p s = getChildrenIds p t"
proof -
  assume a: "skeleton s = skeleton t"
  have "\<And>u. getChildrenIds p u = sort (map fst (filter (\<lambda>(i, q). q = Some p) (skeleton u)))"
    by (simp add: getChildrenIds_def skeleton_def filter_map comp_def case_prod_unfold)
  then show ?thesis using a by simp
qed

lemma keys_skeleton: "skeleton s = skeleton t \<Longrightarrow> map fst s = map fst t"
proof -
  assume a: "skeleton s = skeleton t"
  have "\<And>u. map fst u = map fst (skeleton u)" by (simp add: skeleton_def comp_def)
  then show ?thesis using a by metis
qed

lemma skeleton_update:
  "map_of store i = Some info \<Longrightarrow> parentId info' = parentId info \<Longrightarrow>
   skeleton (AList.update i info' store) = skeleton store"
  by (induction store) (auto simp add: skeleton_def split: if_splits)

lemma wfStore_update_new:
  "wfStore store \<Longrightarrow> parentBelow (i, info) \<Longrightarrow> wfStore (AList.update i info store)"
  by (induction store) (auto simp add: wfStore_def parentBelow_def split: option.splits)

lemma wfStore_update_same:
  "wfStore store \<Longrightarrow> map_of store i = Some info \<Longrightarrow> parentId info' = parentId info \<Longrightarrow>
   wfStore (AList.update i info' store)"
  using skeleton_update wfStore_skeleton by blast

lemma children_above:
  "wfStore store \<Longrightarrow> c \<in> set (getChildrenIds i store) \<Longrightarrow> i < c \<and> c \<in> set (map fst store)"
  by (auto simp add: wfStore_def getChildrenIds_def list_all_iff parentBelow_def split: option.splits)

lemma filter_above_le:
  "(i::nat) \<le> c \<Longrightarrow> length (filter (\<lambda>k. c < k) ks) \<le> length (filter (\<lambda>k. i < k) ks)"
  by (induction ks) auto

lemma filter_above_less:
  "c \<in> set ks \<Longrightarrow> i < c \<Longrightarrow>
   length (filter (\<lambda>k. c < k) ks) < length (filter (\<lambda>k. (i::nat) < k) ks)"
proof (induction ks)
  case Nil
  then show ?case by simp
next
  case (Cons k ks)
  have le: "length (filter (\<lambda>k. c < k) ks) \<le> length (filter (\<lambda>k. i < k) ks)"
    using Cons.prems(2) by (simp add: filter_above_le)
  show ?case
  proof (cases "k = c")
    case True
    then show ?thesis using le Cons.prems(2) by simp
  next
    case False
    then have "c \<in> set ks" using Cons.prems(1) by simp
    from Cons.IH[OF this Cons.prems(2)] show ?thesis using Cons.prems(2) by auto
  qed
qed

lemma those_map_total:
  "(\<And>x. x \<in> set xs \<Longrightarrow> \<exists>y. f x = Some y) \<Longrightarrow> \<exists>ys. those (map f xs) = Some ys"
proof (induction xs)
  case Nil
  then show ?case by simp
next
  case (Cons x xs)
  then obtain y where "f x = Some y" by (meson list.set_intros(1))
  moreover from Cons obtain ys where "those (map f xs) = Some ys" by (meson list.set_intros(2))
  ultimately show ?case by simp
qed

lemma getDescendantIds_total:
  "wfStore store \<Longrightarrow> length (filter (\<lambda>k. i < k) (map fst store)) < n \<Longrightarrow>
   \<exists>ds. getDescendantIds n i store = Some ds"
proof (induction n arbitrary: i)
  case 0
  then show ?case by simp
next
  case (Suc n)
  have "\<exists>ys. those (map (\<lambda>childId. map_option (Cons childId) (getDescendantIds n childId store))
                 (getChildrenIds i store)) = Some ys"
  proof (rule those_map_total)
    fix c assume c: "c \<in> set (getChildrenIds i store)"
    from children_above[OF Suc.prems(1) c] have "i < c" "c \<in> set (map fst store)" by auto
    from filter_above_less[OF this(2) this(1)] Suc.prems(2)
    have "length (filter (\<lambda>k. c < k) (map fst store)) < n" by simp
    from Suc.IH[OF Suc.prems(1) this] show "\<exists>y. map_option (Cons c) (getDescendantIds n c store) = Some y"
      by auto
  qed
  then show ?case by auto
qed

lemma getTotalVisibleInnerText_total:
  "wfStore store \<Longrightarrow> length (filter (\<lambda>k. i < k) (map fst store)) < n \<Longrightarrow>
   \<exists>t. getTotalVisibleInnerText n i store b = Some t"
proof (induction n arbitrary: i)
  case 0
  then show ?case by simp
next
  case (Suc n)
  have "\<exists>ys. those (map (\<lambda>childId. getTotalVisibleInnerText n childId store b)
                 (getChildrenIds i store)) = Some ys"
  proof (rule those_map_total)
    fix c assume c: "c \<in> set (getChildrenIds i store)"
    from children_above[OF Suc.prems(1) c] have "i < c" "c \<in> set (map fst store)" by auto
    from filter_above_less[OF this(2) this(1)] Suc.prems(2)
    have "length (filter (\<lambda>k. c < k) (map fst store)) < n" by simp
    from Suc.IH[OF Suc.prems(1) this] show "\<exists>y. getTotalVisibleInnerText n c store b = Some y"
      by auto
  qed
  then show ?case by (auto simp add: Let_def)
qed

lemma fuel_enough: "length store < n \<Longrightarrow> length (filter P (map fst store)) < n"
  by (metis le_less_trans length_filter_le length_map)

lemma linkLengthOf_total:
  "wfStore store \<Longrightarrow> length store < n \<Longrightarrow> \<exists>l. linkLengthOf n store d = Some l"
proof -
  assume w: "wfStore store" and l: "length store < n"
  from getTotalVisibleInnerText_total[OF w fuel_enough[OF l]]
  obtain t where "getTotalVisibleInnerText n d store True = Some t" by blast
  then show ?thesis by (auto simp add: linkLengthOf_def split: option.splits)
qed

lemma getLinkDensity_total:
  assumes "wfStore store" and "length store < n"
  shows "\<exists>l. getLinkDensity n i store = Some l"
proof -
  from getTotalVisibleInnerText_total[OF assms(1) fuel_enough[OF assms(2)]]
  obtain t where t: "getTotalVisibleInnerText n i store True = Some t" by blast
  from getDescendantIds_total[OF assms(1) fuel_enough[OF assms(2)]]
  obtain ds where ds: "getDescendantIds n i store = Some ds" by blast
  have "\<exists>ls. those (map (linkLengthOf n store) (i # ds)) = Some ls"
    by (rule those_map_total) (rule linkLengthOf_total[OF assms])
  then show ?thesis using t ds by (auto simp add: getLinkDensity_def)
qed


lemma skeleton_initializeNodeScore [simp]: "skeleton (initializeNodeScore i store) = skeleton store"
  by (auto simp add: initializeNodeScore_def getElementInfo_def skeleton_update split: option.splits)

lemma skeleton_propagateScore [simp]:
  "skeleton (fst (propagateScore sc al st)) = skeleton (fst st)"
  by (cases al; cases st)
     (auto simp add: propagateScore_def Let_def getElementInfo_def skeleton_update
        split: option.splits)

lemma skeleton_fold_propagate [simp]:
  "skeleton (fst (fold (propagateScore sc) als st)) = skeleton (fst st)"
  by (induction als arbitrary: st) auto

lemma skeleton_scoreElement [simp]: "skeleton (fst (scoreElement i st)) = skeleton (fst st)"
  by (auto simp add: scoreElement_def split: option.splits)

lemma skeleton_fold_scoreElement [simp]:
  "skeleton (fst (fold scoreElement is st)) = skeleton (fst st)"
  by (induction "is" arbitrary: st) auto

lemma skeleton_propagateAll [simp]: "skeleton (fst (propagateAll store)) = skeleton store"
  by (simp add: propagateAll_def)


lemma adjustCandidates_total:
  "wfStore store \<Longrightarrow> length store < n \<Longrightarrow>
   \<exists>s1 scores. adjustCandidates n is store = Some (s1, scores) \<and> skeleton s1 = skeleton store"
proof (induction "is" arbitrary: store)
  case Nil
  then show ?case by simp
next
  case (Cons i "is")
  show ?case
  proof (cases "getElementInfo i store")
    case None
    then show ?thesis using Cons by simp
  next
    case (Some info)
    show ?thesis
    proof (cases "readability info")
      case None
      then show ?thesis using Some Cons by simp
    next
      case (Some s)
      from getLinkDensity_total[OF Cons.prems] obtain ld where ld: "getLinkDensity n i store = Some ld"
        by blast
      let ?st = "AList.update i (info\<lparr>readability := Some (s * (1 - ld))\<rparr>) store"
      have sk: "skeleton ?st = skeleton store"
        using \<open>getElementInfo i store = Some info\<close>
        by (simp add: getElementInfo_def skeleton_update)
      have w: "wfStore ?st" using wfStore_skeleton[OF sk] Cons.prems(1) by simp
      have l: "length ?st < n" using length_skeleton[OF sk] Cons.prems(2) by simp
      from Cons.IH[OF w l] obtain s1 scores where
        r: "adjustCandidates n is ?st = Some (s1, scores)" and sk1: "skeleton s1 = skeleton ?st"
        by blast
      have "adjustCandidates n (i # is) store = Some (s1, (i, s * (1 - ld)) # scores)"
        using \<open>getElementInfo i store = Some info\<close> Some ld r by (simp add: Let_def)
      then show ?thesis using sk sk1 by simp
    qed
  qed
qed

lemma candidateScores_total:
  assumes "wfStore store"
  shows "\<exists>s1 scores. candidateScores store = Some (s1, scores) \<and> skeleton s1 = skeleton store"
proof -
  obtain st cands where pa: "propagateAll store = (st, cands)" by (cases "propagateAll store")
  have sk: "skeleton st = skeleton store" using skeleton_propagateAll[of store] pa by simp
  have w: "wfStore st" using wfStore_skeleton[OF sk] assms by simp
  have l: "length st < stackFuel store" using length_skeleton[OF sk] by (simp add: stackFuel_def)
  from adjustCandidates_total[OF w l] obtain s1 scores where
    "adjustCandidates (stackFuel store) cands st = Some (s1, scores)" "skeleton s1 = skeleton st"
    by blast
  then show ?thesis using sk pa by (simp add: candidateScores_def)
qed


lemma getParentId_below:
  "wfStore store \<Longrightarrow> getParentId c store = Some p \<Longrightarrow> p < c \<and> c \<in> set (map fst store)"
proof -
  assume w: "wfStore store" and g: "getParentId c store = Some p"
  then obtain info where i: "map_of store c = Some info" "parentId info = Some p"
    by (auto simp add: getParentId_def getElementInfo_def split: option.splits)
  then have "(c, info) \<in> set store" by (simp add: map_of_SomeD)
  then show ?thesis using w i by (force simp add: wfStore_def list_all_iff parentBelow_def)
qed

lemma filter_below_less:
  "c \<in> set ks \<Longrightarrow> p < c \<Longrightarrow>
   length (filter (\<lambda>k. k \<le> p) ks) < length (filter (\<lambda>k. k \<le> (c::nat)) ks)"
proof (induction ks)
  case Nil
  then show ?case by simp
next
  case (Cons k ks)
  have le: "length (filter (\<lambda>k. k \<le> p) ks) \<le> length (filter (\<lambda>k. k \<le> c) ks)"
    using Cons.prems(2) by (induction ks) auto
  show ?case
  proof (cases "k = c")
    case True
    then show ?thesis using le Cons.prems(2) by simp
  next
    case False
    then have "c \<in> set ks" using Cons.prems(1) by simp
    from Cons.IH[OF this Cons.prems(2)] show ?thesis using Cons.prems(2) by auto
  qed
qed

lemma climbSoleChild_total:
  "wfStore store \<Longrightarrow> length (filter (\<lambda>k. k \<le> c) (map fst store)) < n \<Longrightarrow>
   \<exists>t. climbSoleChild n store c = Some t"
proof (induction n arbitrary: c)
  case 0
  then show ?case by simp
next
  case (Suc n)
  show ?case
  proof (cases "getParentId c store")
    case None
    then show ?thesis by (simp add: truthyId_def)
  next
    case (Some p)
    from getParentId_below[OF Suc.prems(1) Some] have "p < c" "c \<in> set (map fst store)" by auto
    from filter_below_less[OF this(2) this(1)] Suc.prems(2)
    have "length (filter (\<lambda>k. k \<le> p) (map fst store)) < n" by simp
    from Suc.IH[OF Suc.prems(1) this] obtain t where "climbSoleChild n store p = Some t" by blast
    then show ?thesis using Some by (simp add: Let_def)
  qed
qed

lemma climbByScore_total:
  "wfStore store \<Longrightarrow> length (filter (\<lambda>k. k \<le> c) (map fst store)) < n \<Longrightarrow>
   \<exists>t. climbByScore n store c sc = Some t"
proof (induction n arbitrary: c sc)
  case 0
  then show ?case by simp
next
  case (Suc n)
  show ?case
  proof (cases "getParentId c store")
    case None
    then show ?thesis by (simp add: truthyId_def)
  next
    case (Some p)
    from getParentId_below[OF Suc.prems(1) Some] have "p < c" "c \<in> set (map fst store)" by auto
    from filter_below_less[OF this(2) this(1)] Suc.prems(2)
    have "length (filter (\<lambda>k. k \<le> p) (map fst store)) < n" by simp
    from Suc.IH[OF Suc.prems(1) this]
    obtain t where "climbByScore n store p (scoreOf p store (- 1)) = Some t" by blast
    then show ?thesis using Some by (simp add: Let_def)
  qed
qed


lemma addSubtree_total:
  "wfStore store \<Longrightarrow> length store < n \<Longrightarrow> \<exists>k. addSubtree n i store keep = Some k"
  using getDescendantIds_total[OF _ fuel_enough] by (fastforce simp add: addSubtree_def)

lemma combineSiblings_total:
  "wfStore store \<Longrightarrow> length store < n \<Longrightarrow>
   \<exists>k. combineSiblings n store topId th sibs keep = Some k"
proof (induction sibs arbitrary: keep)
  case Nil
  then show ?case by simp
next
  case (Cons s sibs)
  from addSubtree_total[OF Cons.prems] obtain k1 where "addSubtree n s store keep = Some k1"
    by blast
  then show ?case using Cons by (auto split: option.splits)
qed

lemma elementsToKeep_total:
  "wfStore store \<Longrightarrow> length store < n \<Longrightarrow> \<exists>k. elementsToKeep n store topId sc = Some k"
  using addSubtree_total combineSiblings_total by (simp add: elementsToKeep_def Let_def)

lemma selectCandidate_total:
  assumes "wfStore store" and "length store < n"
  shows "\<exists>r. selectCandidate n store scores = Some r"
proof (cases "sortedCandidates scores")
  case Nil
  then show ?thesis by (simp add: selectCandidate_def)
next
  case (Cons a list)
  obtain firstId firstScore where a: "a = (firstId, firstScore)" by (cases a)
  from climbByScore_total[OF assms(1) fuel_enough[OF assms(2)]]
  obtain cl sc where c1: "climbByScore n store firstId firstScore = Some (cl, sc)" by fastforce
  from climbSoleChild_total[OF assms(1) fuel_enough[OF assms(2)]]
  obtain t where c2: "climbSoleChild n store cl = Some t" by blast
  from elementsToKeep_total[OF assms] obtain k where "elementsToKeep n store t sc = Some k" by blast
  then show ?thesis using Cons a c1 c2 by (simp add: selectCandidate_def)
qed

lemma selection_total:
  assumes "wfStore store"
  shows "\<exists>sel s1. selection store = Some (sel, s1) \<and> skeleton s1 = skeleton store"
proof -
  from candidateScores_total[OF assms] obtain s1 scores where
    cs: "candidateScores store = Some (s1, scores)" and sk: "skeleton s1 = skeleton store" by blast
  have w: "wfStore s1" using wfStore_skeleton[OF sk] assms by simp
  have l: "length s1 < stackFuel store" using length_skeleton[OF sk] by (simp add: stackFuel_def)
  from selectCandidate_total[OF w l] obtain r where
    "selectCandidate (stackFuel store) s1 scores = Some r" by blast
  then show ?thesis using cs sk by (simp add: selection_def)
qed

lemma calculateScores_total:
  assumes "wfStore store"
  shows "\<exists>r s1. calculateScoresAndFindBestCandidate store options = Some (r, s1)
           \<and> skeleton s1 = skeleton store"
proof -
  from selection_total[OF assms] obtain sel s1 where
    "selection store = Some (sel, s1)" "skeleton s1 = skeleton store" by blast
  then show ?thesis
    by (cases sel) (auto simp add: calculateScoresAndFindBestCandidate_def)
qed


section \<open>The tree builder builds well-formed stores; the pipeline returns\<close>

lemma registerElement_wf:
  "wfStore (elementStore h) \<Longrightarrow> wfStore (elementStore (registerElement tag i r h))"
  by (auto simp add: registerElement_def Let_def wfStore_update_same split: option.splits list.splits)

lemma registerElement_stack:
  "set (elementStack (registerElement tag i r h)) \<subseteq> insert i (set (elementStack h))"
  by (auto simp add: registerElement_def Let_def split: option.splits list.splits)

lemma newElementInfo_parent [simp]: "parentId (newElementInfo i p tag attrs) = p"
  by (simp add: newElementInfo_def Let_def)

lemma element_h_p1Inv: "p1Inv h \<Longrightarrow> p1Inv (element_h h tag attrs r)"
proof -
  assume inv: "p1Inv h"
  let ?i = "elementCounter h + 1"
  let ?h2 = "h\<lparr>elementCount := elementCount h + 1, elementCounter := ?i\<rparr>"
  let ?info = "newElementInfo ?i (getCurrentElementIdFromStack ?h2) (toUpperCase tag) attrs"
  let ?h3 = "?h2\<lparr>elementStore := AList.update ?i ?info (elementStore ?h2),
                   lastTextChunkMap := AList.delete ?i (lastTextChunkMap ?h2)\<rparr>"
  let ?h4 = "processSpecificTag (toUpperCase tag) attrs ?h3"
  let ?h5 = "registerElement (toUpperCase tag) ?i r ?h4"
  have pb: "parentBelow (?i, ?info)"
    using inv by (auto simp add: parentBelow_def p1Inv_def getCurrentElementIdFromStack_def
        split: list.splits option.splits)
  have w3: "wfStore (elementStore ?h4)"
    using inv pb by (simp add: p1Inv_def wfStore_update_new)
  have w5: "wfStore (elementStore ?h5)" using w3 by (rule registerElement_wf)
  have sub: "set (elementStack ?h5) \<subseteq> insert ?i (set (elementStack h))"
    using registerElement_stack[of "toUpperCase tag" ?i r ?h4] by simp
  have c5: "elementCounter ?h5 = ?i" by simp
  have s5: "\<forall>s \<in> set (elementStack ?h5). s \<le> elementCounter ?h5"
  proof
    fix s assume "s \<in> set (elementStack ?h5)"
    then have "s = ?i \<or> s \<in> set (elementStack h)" using sub by blast
    then have "s \<le> ?i" using inv by (auto simp add: p1Inv_def le_Suc_eq)
    then show "s \<le> elementCounter ?h5" using c5 by simp
  qed
  have "p1Inv ?h5" using w5 s5 by (simp add: p1Inv_def)
  moreover have "p1Inv (h\<lparr>elementCount := elementCount h + 1\<rparr>)" using inv by (simp add: p1Inv_def)
  moreover have "element_h h tag attrs r = h \<or>
      element_h h tag attrs r = h\<lparr>elementCount := elementCount h + 1\<rparr> \<or>
      element_h h tag attrs r = ?h5"
    by (simp add: element_h_def Let_def)
  ultimately show ?thesis using inv by metis
qed

lemma onEndTag_p1Inv: "p1Inv h \<Longrightarrow> p1Inv (onEndTag h)"
  by (auto simp add: p1Inv_def onEndTag_def Let_def wfStore_update_same
      split: list.splits option.splits)

lemma text_h_p1Inv: "p1Inv h \<Longrightarrow> p1Inv (text_h h c)"
  by (auto simp add: p1Inv_def text_h_def Let_def wfStore_update_same
      split: list.splits option.splits)

lemma handleEvent_p1Inv: "p1Inv h \<Longrightarrow> p1Inv (handleEvent h ev)"
  by (cases ev) (simp_all add: element_h_p1Inv onEndTag_p1Inv text_h_p1Inv, simp add: p1Inv_def end_h_def)

lemma runEvents_p1Inv: "p1Inv h \<Longrightarrow> p1Inv (runEvents h evs)"
  unfolding runEvents_def by (induction evs arbitrary: h) (auto simp: handleEvent_p1Inv)

lemma runPhase1_wf: "wfStore (elementStore_i (runPhase1 inst evs))"
proof -
  let ?h0 = "\<lparr>elementStore = [], metadataStore = emptyMetadata, elementCounter = 0,
     maxElemsToParse = (case maxElemsToParse_o (options_i inst) of None \<Rightarrow> 0 | Some m \<Rightarrow> m),
     elementStack = [], elementCount = 0, lastTextChunkMap = []\<rparr>"
  have "p1Inv ?h0" by (simp add: p1Inv_def wfStore_def)
  then have "p1Inv (runEvents ?h0 evs)" by (rule runEvents_p1Inv)
  then show ?thesis by (simp add: runPhase1_def resetState_def Let_def p1Inv_def)
qed

lemma convertNodeRecursive_total:
  "wfStore (elementStore_c cv) \<Longrightarrow>
   length (filter (\<lambda>k. i < k) (map fst (elementStore_c cv))) < n \<Longrightarrow>
   \<exists>md. convertNodeRecursive n cv i lvl ord num = Some md"
proof (induction n arbitrary: i lvl ord num)
  case 0
  then show ?case by simp
next
  case (Suc n)
  let ?children = "getChildrenIds i (elementStore_c cv)"
  have "\<And>f g h. \<exists>ys. those (map (\<lambda>(childId, index). convertNodeRecursive n cv childId f g (h index))
                 (zip ?children [0 ..< length ?children])) = Some ys"
  proof (rule those_map_total)
    fix f g h x assume x: "x \<in> set (zip ?children [0 ..< length ?children])"
    obtain c idx where xe: "x = (c, idx)" by (cases x)
    then have c: "c \<in> set ?children" using x by (meson set_zip_leftD)
    from children_above[OF Suc.prems(1) c] have "i < c" "c \<in> set (map fst (elementStore_c cv))"
      by auto
    from filter_above_less[OF this(2) this(1)] Suc.prems(2)
    have "length (filter (\<lambda>k. c < k) (map fst (elementStore_c cv))) < n" by simp
    from Suc.IH[OF Suc.prems(1) this]
    show "\<exists>y. (case x of (childId, index) \<Rightarrow> convertNodeRecursive n cv childId f g (h index)) = Some y"
      using xe by auto
  qed
  then show ?case by (auto simp add: Let_def split: option.splits)
qed

lemma convert_total:
  assumes "wfStore (elementStore_c cv)"
  shows "\<exists>md. convert cv r = Some md"
proof (cases r)
  case None
  then show ?thesis by (simp add: convert_def)
next
  case (Some rootId)
  have "\<exists>ys. those (map (\<lambda>childId. convertNodeRecursive (stackFuel (elementStore_c cv)) cv childId
                                       0 False 1)
                      (getChildrenIds rootId (elementStore_c cv))) = Some ys"
  proof (rule those_map_total)
    fix x
    have "length (elementStore_c cv) < stackFuel (elementStore_c cv)" by (simp add: stackFuel_def)
    from convertNodeRecursive_total[OF assms fuel_enough[OF this]]
    show "\<exists>y. convertNodeRecursive (stackFuel (elementStore_c cv)) cv x 0 False 1 = Some y" .
  qed
  then show ?thesis using Some by (auto simp add: convert_def)
qed

lemma runPhase2_total:
  assumes "wfStore (elementStore_i inst)"
  shows "\<exists>r inst1. runPhase2 inst = Some (r, inst1) \<and> wfStore (elementStore_i inst1)"
proof -
  from calculateScores_total[OF assms] obtain r s1 where
    c: "calculateScoresAndFindBestCandidate (elementStore_i inst) (scoringOptionsOf inst)
          = Some (r, s1)"
    and sk: "skeleton s1 = skeleton (elementStore_i inst)" by blast
  have "wfStore s1" using wfStore_skeleton[OF sk] assms by simp
  then show ?thesis using c by (simp add: runPhase2_def)
qed

lemma process_total: "\<exists>res inst1. process url inst evs = Some (res, inst1)"
proof -
  from runPhase2_total[OF runPhase1_wf] obtain r inst1 where
    p2: "runPhase2 (runPhase1 inst evs) = Some (r, inst1)" and w: "wfStore (elementStore_i inst1)"
    by blast
  show ?thesis
  proof (cases "\<not> truthyId (topCandidateId r) \<or> length (elementsToKeepIds r) = 0")
    case True
    then show ?thesis using p2 by (auto simp add: process_def)
  next
    case False
    let ?inst2 = "inst1\<lparr>elementsToKeepIdsSet_i := fold setAdd (elementsToKeepIds r) []\<rparr>"
    have "\<And>rid. \<exists>md. convertToMarkdown url ?inst2 (Some rid) = Some md"
      using convert_total[of _ "Some _"] w by (simp add: convertToMarkdown_def)
    then show ?thesis using p2 False by (simp add: process_def Let_def)
  qed
qed


section \<open>Scorer\<close>

lemma getAncestorIds_bounded: "getAncestorIds i store 5 = Some (ancestorsWalk 5 store i)"
  by (simp add: getAncestorIds_def)








lemma scoreOf_update [simp]:
  "scoreOf a (AList.update a (info\<lparr>readability := Some s\<rparr>) store) d = s"
  by (simp add: scoreOf_def getElementInfo_def update_conv')


lemma climbSoleChild_sound:
  "climbSoleChild n store c = Some t \<Longrightarrow>
   (soleStep store)\<^sup>*\<^sup>* c t \<and> (\<forall>p. \<not> soleStep store t p)"
proof (induction n store c rule: climbSoleChild.induct)
  case (1 store topId)
  then show ?case by simp
next
  case (2 n store topId)
  show ?case
  proof (cases "\<exists>p. soleStep store topId p")
    case True
    then obtain p where p: "soleStep store topId p" by blast
    have c1: "truthyId (getParentId topId store) \<and> getElementInfo topId store \<noteq> None
         \<and> map_option tagName (getElementInfo topId store) \<noteq> Some ''BODY''"
      using p by (auto simp add: soleStep_def truthyId_def split: option.splits)
    have c3: "the (getParentId topId store) = p" using p by (simp add: soleStep_def)
    have c2: "length (getChildrenIds (the (getParentId topId store)) store) = 1"
      using p c3 by (simp add: soleStep_def)
    have rec: "climbSoleChild (Suc n) store topId = climbSoleChild n store p"
      using c1 c2 c3 by (simp add: Let_def)
    with "2.prems" have "climbSoleChild n store (the (getParentId topId store)) = Some t"
      using c3 by simp
    from "2.IH"[OF refl c1 c2 this] c3
    have "(soleStep store)\<^sup>*\<^sup>* p t \<and> (\<forall>q. \<not> soleStep store t q)" by simp
    then show ?thesis using p by (meson converse_rtranclp_into_rtranclp)
  next
    case False
    then have "climbSoleChild (Suc n) store topId = Some topId"
      by (auto simp add: soleStep_def truthyId_def Let_def split: option.splits)
    with "2.prems" False show ?thesis by auto
  qed
qed




section \<open>Entry point\<close>

lemma runPhase1_reset:
  "options_i a = options_i b \<Longrightarrow> baseURI_i a = baseURI_i b \<Longrightarrow> runPhase1 a evs = runPhase1 b evs"
  by (cases a; cases b) (simp add: runPhase1_def resetState_def Let_def)

lemma process_reset:
  "options_i a = options_i b \<Longrightarrow> baseURI_i a = baseURI_i b \<Longrightarrow> process url a evs = process url b evs"
proof -
  assume "options_i a = options_i b" and "baseURI_i a = baseURI_i b"
  then have "runPhase1 a evs = runPhase1 b evs" by (rule runPhase1_reset)
  then show ?thesis unfolding process_def by (rule arg_cong)
qed

lemma runPhase1_keeps [simp]:
  "options_i (runPhase1 inst evs) = options_i inst"
  "baseURI_i (runPhase1 inst evs) = baseURI_i inst"
  by (simp_all add: runPhase1_def resetState_def Let_def)

lemma process_keeps:
  assumes "process url inst evs = Some (res, inst1)"
  shows "options_i inst1 = options_i inst \<and> baseURI_i inst1 = baseURI_i inst"
proof -
  from assms obtain r inst0 where p2: "runPhase2 (runPhase1 inst evs) = Some (r, inst0)"
    by (auto simp add: process_def split: option.splits)
  then have k: "options_i inst0 = options_i inst \<and> baseURI_i inst0 = baseURI_i inst"
    by (auto simp add: runPhase2_def)
  from assms p2 have "inst1 = inst0 \<or>
      inst1 = inst0\<lparr>elementsToKeepIdsSet_i := fold setAdd (elementsToKeepIds r) []\<rparr>"
    by (auto simp add: process_def Let_def split: if_splits)
  with k show ?thesis by auto
qed













section \<open>The claims about the scorer\<close>








text \<open>
  Claim C7, as stated, fails: the loop tests the tag of the candidate, not of its parent.
  In the first example the \<^verbatim>\<open>div\<close> 4 is the only child of the body 3, and the
  climb replaces it by the body, which the selection then returns.
\<close>

theorem sole_child_climb_counterexample:
  "climbSoleChild (stackFuel stA) stA 4 = Some 3 \<and>
   map_option tagName (getElementInfo 3 stA) = Some ''BODY'' \<and>
   getParentId 4 stA = Some 3 \<and> getChildrenIds 3 stA = [4] \<and>
   map_option fst (selection stA) = Some (Some (3, [3, 4, 5]))"
  by code_simp

text \<open>
  Claim C7, amended. The second climb replaces the candidate by its parent exactly while
  the candidate has a record whose tag is not \<^verbatim>\<open>BODY\<close> and its parent has exactly
  one child: the result is reached by such steps and allows no further one. On a
  well-formed store the climb returns.
\<close>

theorem sole_child_climb:
  "(climbSoleChild n store c = Some t \<longrightarrow>
      (soleStep store)\<^sup>*\<^sup>* c t \<and> (\<forall>p. \<not> soleStep store t p)) \<and>
   (wfStore store \<longrightarrow> (\<exists>t. climbSoleChild (stackFuel store) store c = Some t))"
proof (rule conjI)
  show "climbSoleChild n store c = Some t \<longrightarrow>
      (soleStep store)\<^sup>*\<^sup>* c t \<and> (\<forall>p. \<not> soleStep store t p)"
    using climbSoleChild_sound by blast
next
  show "wfStore store \<longrightarrow> (\<exists>t. climbSoleChild (stackFuel store) store c = Some t)"
  proof
    assume w: "wfStore store"
    have "length store < stackFuel store" by (simp add: stackFuel_def)
    from climbSoleChild_total[OF w fuel_enough[OF this]]
    show "\<exists>t. climbSoleChild (stackFuel store) store c = Some t" .
  qed
qed

theorem sole_child_climb_witness:
  "wfStore stA \<and> climbSoleChild (stackFuel stA) stA 4 = Some 3 \<and>
   (soleStep stA)\<^sup>*\<^sup>* 4 3 \<and> \<not> soleStep stA 3 1"
proof -
  have w: "wfStore stA" by code_simp
  have c: "climbSoleChild (stackFuel stA) stA 4 = Some 3" by code_simp
  from sole_child_climb [of "stackFuel stA" stA 4 3] c
  have "(soleStep stA)\<^sup>*\<^sup>* 4 3 \<and> (\<forall>p. \<not> soleStep stA 3 p)" by simp
  with w c show ?thesis by simp
qed


section \<open>The claims about the serializer and the pipeline\<close>

text \<open>
  Claim C5 on a \<^verbatim>\<open>pre\<close> (2) with a \<^verbatim>\<open>code\<close> child (3). The tree builder sets
  \<open>isCodeBlock\<close> on the \<^verbatim>\<open>pre\<close> only, so the \<^verbatim>\<open>code\<close> child itself renders
  as an inline span, not as nothing. The \<^verbatim>\<open>pre\<close> drops the Markdown of its children
  and emits the fence with the language and the raw text; when the \<^verbatim>\<open>pre\<close> is the
  root of the conversion, the span is the output.
\<close>

theorem code_under_pre_renders_inline:
  "map_option tagName (map_of stPre 2) = Some ''PRE'' \<and>
   map_option tagName (map_of stPre 3) = Some ''CODE'' \<and>
   getParentId 3 stPre = Some 2 \<and>
   map_option isCodeBlock (map_of stPre 3) = Some False \<and>
   convertNodeRecursive (stackFuel stPre) cvPre 3 0 False 1
     = Some ([CHR 0x60] @ ''let x = 1;'' @ [CHR 0x60]) \<and>
   convertNodeRecursive (stackFuel stPre) cvPre 2 0 False 1
     = Some ([CHR 0x60, CHR 0x60, CHR 0x60] @ ''js'' @ [NL] @ ''let x = 1;'' @ [NL]
             @ [CHR 0x60, CHR 0x60, CHR 0x60] @ [NL, NL]) \<and>
   convertNodeRecursive (stackFuel stPre) cvPre 5 0 False 1
     = Some ([CHR 0x60] @ ''f'' @ [CHR 0x60]) \<and>
   convert cvPre (Some 2) = Some ([CHR 0x60] @ ''let x = 1;'' @ [CHR 0x60])"
  by code_simp

text \<open>
  Claim C6 on an ordered list nested three levels deep (items a, f, g; below a the items
  b, e; below b the items c, d). The items are numbered by position, but the lines of the
  third level come out with the two blanks of the second level, not with four: a list
  item trims every line of its content and indents it by its own indent.
\<close>

theorem nested_ordered_list_indent:
  "map_option (splitOn NL) (convert cvOl (Some 1))
     = Some [''1. a'', ''  1. b'', ''  1. c'', ''  2. d'', ''  2. e'', ''2. f'', ''3. g'']"
  by code_simp

text \<open>
  Claim C9. The result of \<open>process\<close> depends on the options, the base URI and the events
  only: two instances that agree on options and base URI give the same result (and leave
  the same instance) whatever their stores, counters and metadata were; running the same
  events again on the instance that a call has left gives the same result; and the call
  returns.
\<close>

theorem pipeline_deterministic:
  "(options_i a = options_i b \<and> baseURI_i a = baseURI_i b \<longrightarrow>
      process url a evs = process url b evs) \<and>
   (process url inst evs = Some (res, inst1) \<longrightarrow> process url inst1 evs = Some (res, inst1)) \<and>
   (\<exists>res1 inst2. process url inst evs = Some (res1, inst2))"
proof (intro conjI)
  show "options_i a = options_i b \<and> baseURI_i a = baseURI_i b \<longrightarrow>
      process url a evs = process url b evs"
    using process_reset[of a b url evs] by blast
next
  show "process url inst evs = Some (res, inst1) \<longrightarrow> process url inst1 evs = Some (res, inst1)"
  proof
    assume p: "process url inst evs = Some (res, inst1)"
    from process_keeps[OF p] have "process url inst1 evs = process url inst evs"
      using process_reset[of inst1 inst url evs] by blast
    with p show "process url inst1 evs = Some (res, inst1)" by simp
  qed
next
  show "\<exists>res1 inst2. process url inst evs = Some (res1, inst2)" by (rule process_total)
qed

text \<open>
  A fresh instance and one that holds the store of another page, on the first example:
  both return the escaped paragraph with empty metadata.
\<close>

theorem pipeline_deterministic_witness:
  "options_i instA = options_i instB \<and> baseURI_i instA = baseURI_i instB \<and>
   elementStore_i instA \<noteq> elementStore_i instB \<and>
   map_option fst (process noURL instA evA)
     = Some (Some (''Hello, this is a long text, with commas'' @ [CHR 0x5C] @ ''.'', emptyMetadata)) \<and>
   process noURL instA evA = process noURL instB evA"
proof -
  have h: "options_i instA = options_i instB \<and> baseURI_i instA = baseURI_i instB" by code_simp
  have d: "elementStore_i instA \<noteq> elementStore_i instB" by code_simp
  have v: "map_option fst (process noURL instA evA)
     = Some (Some (''Hello, this is a long text, with commas'' @ [CHR 0x5C] @ ''.'', emptyMetadata))"
    by code_simp
  from pipeline_deterministic [of instA instB noURL evA instA "None" instA] h
  have "process noURL instA evA = process noURL instB evA" by simp
  with h d v show ?thesis by simp
qed


end
